theory Spec2Isabelle
  imports Main "HOL-Library.AList"
begin

section \<open>Batched refresh: \<open>AppRenderer.batch_update\<close> and \<open>refresh\<close>\<close>

text \<open>
  \<open>app_renderer.py\<close>: the renderer keeps a nesting counter \<open>_batch_count\<close>.
  \<open>batch_update\<close> is a context manager: \<open>_begin_batch\<close>, the body, and
  \<open>_end_batch\<close> in a \<open>finally\<close> clause.  \<open>refresh\<close> either asks for a recompose, or
  refreshes the current screen (if there is one) and calls \<open>check_idle\<close>, whatever the
  counter is.  The calls of \<open>check_idle\<close>, of the screen's \<open>refresh\<close> and of
  \<open>call_next(self._check_recompose)\<close> are recorded in a trace.
\<close>

datatype batch_event = CheckIdle | ScreenRefresh | CallNextCheckRecompose

datatype exn = AssertionError | UserException

record renderer =
  batch_count :: int
  recompose_required :: bool
  has_screen :: bool
  batch_trace :: "batch_event list"

text \<open>The statements of a body: a nested \<open>with self.batch_update():\<close> block, a
  statement that raises, a call of \<open>refresh\<close> (with its \<open>recompose\<close> argument), and a
  direct call of \<open>check_idle\<close> (as in \<open>app_event_handler.py\<close>, inside the batch of
  \<open>run_process_messages\<close>).\<close>

datatype stmt = WithBatch "stmt list" | RaiseStmt | RefreshStmt bool | CheckIdleStmt

definition begin_batch :: "renderer \<Rightarrow> renderer" where
  "begin_batch r = r\<lparr>batch_count := batch_count r + 1\<rparr>"

definition check_idle :: "renderer \<Rightarrow> renderer" where
  "check_idle r = r\<lparr>batch_trace := batch_trace r @ [CheckIdle]\<rparr>"

definition end_batch :: "renderer \<Rightarrow> exn option \<times> renderer" where
  "end_batch r =
     (let r1 = r\<lparr>batch_count := batch_count r - 1\<rparr>
      in if \<not> batch_count r1 \<ge> 0 then (Some AssertionError, r1)
         else if batch_count r1 = 0 then (None, check_idle r1)
         else (None, r1))"

text \<open>\<open>refresh(repaint, layout, recompose)\<close>.\<close>

definition refresh :: "bool \<Rightarrow> renderer \<Rightarrow> renderer" where
  "refresh recompose r =
     (if recompose
      then r\<lparr>recompose_required := recompose,
             batch_trace := batch_trace r @ [CallNextCheckRecompose]\<rparr>
      else check_idle
             (if has_screen r then r\<lparr>batch_trace := batch_trace r @ [ScreenRefresh]\<rparr> else r))"

text \<open>\<open>exec_stmt\<close> returns the exception that leaves the statement, if any, and the
  renderer.  In \<open>batch_update\<close> the \<open>finally\<close> clause runs on both exits; an
  exception of the clause itself replaces the one of the body.\<close>

fun exec_stmt :: "stmt \<Rightarrow> renderer \<Rightarrow> exn option \<times> renderer"
  and exec_body :: "stmt list \<Rightarrow> renderer \<Rightarrow> exn option \<times> renderer" where
  "exec_stmt (WithBatch body) r =
     (case exec_body body (begin_batch r) of
        (x, r2) \<Rightarrow> (case end_batch r2 of
                      (Some e, r3) \<Rightarrow> (Some e, r3)
                    | (None, r3) \<Rightarrow> (x, r3)))"
| "exec_stmt RaiseStmt r = (Some UserException, r)"
| "exec_stmt (RefreshStmt recompose) r = (None, refresh recompose r)"
| "exec_stmt CheckIdleStmt r = (None, check_idle r)"
| "exec_body [] r = (None, r)"
| "exec_body (c # cs) r =
     (case exec_stmt c r of
        (None, r1) \<Rightarrow> exec_body cs r1
      | (Some e, r1) \<Rightarrow> (Some e, r1))"

definition batch_update :: "stmt list \<Rightarrow> renderer \<Rightarrow> exn option \<times> renderer" where
  "batch_update body r = exec_stmt (WithBatch body) r"

subsection \<open>What the statements of a body do by themselves\<close>

text \<open>The events that the statements of a body make with the scopes taken away, and
  whether the body raises: a \<open>refresh\<close> without recompose refreshes the screen, if there
  is one, and calls \<open>check_idle\<close>; nothing runs after a statement that raises.\<close>

fun stmt_events :: "bool \<Rightarrow> stmt \<Rightarrow> batch_event list \<times> bool"
  and body_events :: "bool \<Rightarrow> stmt list \<Rightarrow> batch_event list \<times> bool" where
  "stmt_events h (WithBatch body) = body_events h body"
| "stmt_events h RaiseStmt = ([], True)"
| "stmt_events h (RefreshStmt recompose) =
     (if recompose then [CallNextCheckRecompose]
      else (if h then [ScreenRefresh] else []) @ [CheckIdle], False)"
| "stmt_events h CheckIdleStmt = ([CheckIdle], False)"
| "body_events h [] = ([], False)"
| "body_events h (c # cs) =
     (case stmt_events h c of
        (es, True) \<Rightarrow> (es, True)
      | (es, False) \<Rightarrow> (case body_events h cs of (es', raised) \<Rightarrow> (es @ es', raised)))"

text \<open>A run inside an open batch does what its statements do by themselves: it restores
  the counter, keeps the screen, adds their events and raises what they raise.\<close>

definition runs_as :: "renderer \<Rightarrow> batch_event list \<times> bool \<Rightarrow> exn option \<times> renderer \<Rightarrow> bool" where
  "runs_as r ev res \<longleftrightarrow>
     batch_count (snd res) = batch_count r \<and> has_screen (snd res) = has_screen r \<and>
     batch_trace (snd res) = batch_trace r @ fst ev \<and>
     fst res = (if snd ev then Some UserException else None)"

text \<open>A renderer with a screen and no open batch.\<close>

definition example_renderer :: renderer where
  "example_renderer =
     \<lparr>batch_count = 0, recompose_required = False, has_screen = True, batch_trace = []\<rparr>"

section \<open>The screen stack controller\<close>

text \<open>
  \<open>app_screen_controller.py\<close>.  A screen is an object; its identity is a number.  The
  controller holds one stack of screens per mode (a dict, kept as an association list
  read with \<open>map_of\<close> and written with \<open>AList.update\<close>; the top of a stack is its last
  element), the name of the current mode and the catalog of installed screens (a dict from
  names to a screen instance or to a callable that makes one; its insertion order is kept,
  since \<open>uninstall_screen\<close> iterates over it).  Calls that leave the controller (messages
  posted to a screen, refreshes, removals, registration, style sheets) are recorded in
  \<open>events\<close>; calls of \<open>self.log.system\<close> only write to the log and are left out.
\<close>

type_synonym screen = nat

datatype error = ScreenStackError | UnknownModeError | KeyError | NoActiveWorker

datatype installed = Instance screen | Factory screen

datatype screen_arg = ByInstance screen | ByName string

datatype pump = AppPump | NodePump nat

text \<open>A result callback as \<open>_push_result_callback(requester, callback, future)\<close> stores
  it: the requesting pump, the optional callback and the optional future.\<close>

datatype result_callback = ResultCallback pump "nat option" "nat option"

datatype message = ScreenSuspend | ScreenResume

datatype screen_event =
    PostMessage screen message
  | Refresh screen
  | Remove screen
  | Register screen
  | CallNextAwaitMount screen
  | LoadScreenCss screen
  | StylesheetUpdate screen
  | CallNextCallback pump nat int

text \<open>What \<open>push_screen\<close> returns: an \<open>AwaitMount\<close> for a screen (the flag tells
  whether its widget list is the one returned by \<open>_register\<close> or the empty list), or a
  future.\<close>

datatype awaitable = AwaitMount screen bool | Future nat

record controller =
  screen_stacks :: "(string \<times> screen list) list"
  current_mode :: string
  installed_screens :: "(string \<times> installed) list"
  is_running :: "screen \<Rightarrow> bool"
  result_callbacks :: "screen \<Rightarrow> result_callback list"
  future_count :: nat
  future_result :: "nat \<rightharpoonup> int"
  events :: "screen_event list"

definition emit :: "screen_event \<Rightarrow> controller \<Rightarrow> controller" where
  "emit e s = s\<lparr>events := events s @ [e]\<rparr>"

text \<open>The property \<open>_screen_stack\<close>: \<open>self._screen_stacks[self._current_mode]\<close>; \<open>None\<close>
  stands for the \<open>KeyError\<close> of a mode without a stack.\<close>

definition screen_stack_ref :: "controller \<Rightarrow> screen list option" where
  "screen_stack_ref s = map_of (screen_stacks s) (current_mode s)"

text \<open>The property \<open>screen\<close>: the top of the current stack; a missing mode is reported as
  \<open>UnknownModeError\<close>, an empty stack as \<open>ScreenStackError\<close>.\<close>

definition current_screen :: "controller \<Rightarrow> error + screen" where
  "current_screen s =
     (case screen_stack_ref s of
        None \<Rightarrow> Inl UnknownModeError
      | Some stack \<Rightarrow> if stack = [] then Inl ScreenStackError else Inr (last stack))"

text \<open>\<open>is_screen_installed\<close> for a screen object: \<open>screen in self._installed_screens.values()\<close>.
  A callable in the catalog is not equal to any screen.\<close>

definition is_screen_installed :: "screen \<Rightarrow> controller \<Rightarrow> bool" where
  "is_screen_installed x s \<longleftrightarrow> Instance x \<in> set (map snd (installed_screens s))"

text \<open>\<open>any(screen in stack for stack in self._screen_stacks.values())\<close>.\<close>

definition in_any_stack :: "screen \<Rightarrow> controller \<Rightarrow> bool" where
  "in_any_stack x s \<longleftrightarrow> (\<exists>stack \<in> set (map snd (screen_stacks s)). x \<in> set stack)"

text \<open>\<open>_replace_screen\<close>: refresh the current screen if the current stack is not empty,
  post \<open>ScreenSuspend\<close> to the replaced screen, and remove it unless it is installed or is
  on some stack.\<close>

definition replace_screen :: "screen \<Rightarrow> controller \<Rightarrow> (error + screen) \<times> controller" where
  "replace_screen x s =
     (case screen_stack_ref s of
        None \<Rightarrow> (Inl KeyError, s)
      | Some stack \<Rightarrow>
          let s1 = (if stack \<noteq> [] then emit (Refresh (last stack)) s else s);
              s2 = emit (PostMessage x ScreenSuspend) s1;
              s3 = (if \<not> is_screen_installed x s2 \<and> \<not> in_any_stack x s2
                    then emit (Remove x) s2 else s2)
          in (Inr x, s3))"

text \<open>Modelled from the spec: \<open>Screen._pop_result_callback\<close> is part of the screen class,
  which is not among the sources.  The spec (section 3): a screen's result is delivered
  through a single-use future/callback pair established at push time and consumed at
  pop/switch time.  The latest pair of the screen is dropped.\<close>

definition pop_result_callback :: "screen \<Rightarrow> controller \<Rightarrow> controller" where
  "pop_result_callback x s =
     s\<lparr>result_callbacks := (result_callbacks s)(x := butlast (result_callbacks s x))\<rparr>"

text \<open>Modelled from the spec: \<open>Screen._push_result_callback\<close>, not among the sources
  either, adds such a pair as the latest one of the screen.\<close>

definition push_result_callback ::
  "screen \<Rightarrow> pump \<Rightarrow> nat option \<Rightarrow> nat option \<Rightarrow> controller \<Rightarrow> controller" where
  "push_result_callback x requester callback future s =
     s\<lparr>result_callbacks :=
         (result_callbacks s)(x := result_callbacks s x @ [ResultCallback requester callback future])\<rparr>"

text \<open>\<open>pop_screen\<close>.  \<open>screen_stack.pop()\<close> mutates the current stack in place.\<close>

definition pop_screen :: "controller \<Rightarrow> (error + screen) \<times> controller" where
  "pop_screen s =
     (case screen_stack_ref s of
        None \<Rightarrow> (Inl KeyError, s)
      | Some screen_stack \<Rightarrow>
          if length screen_stack \<le> 1 then (Inl ScreenStackError, s)
          else
            let s1 = s\<lparr>screen_stacks :=
                        AList.update (current_mode s) (butlast screen_stack) (screen_stacks s)\<rparr>
            in case replace_screen (last screen_stack) s1 of
                 (Inl e, s2) \<Rightarrow> (Inl e, s2)
               | (Inr previous_screen, s2) \<Rightarrow>
                   let s3 = pop_result_callback previous_screen s2
                   in case current_screen s3 of
                        Inl e \<Rightarrow> (Inl e, s3)
                      | Inr cur \<Rightarrow> (Inr previous_screen, emit (PostMessage cur ScreenResume) s3))"

text \<open>\<open>uninstall_screen\<close>, by name or by screen object.  The result is the name that was
  uninstalled, or \<open>None\<close>.\<close>

definition uninstall_screen ::
  "screen_arg \<Rightarrow> controller \<Rightarrow> (error + string option) \<times> controller" where
  "uninstall_screen a s =
     (case a of
        ByName name \<Rightarrow>
          (case map_of (installed_screens s) name of
             None \<Rightarrow> (Inr None, s)
           | Some entry \<Rightarrow>
               if (case entry of Instance x \<Rightarrow> in_any_stack x s | Factory f \<Rightarrow> False)
               then (Inl ScreenStackError, s)
               else (Inr (Some name),
                     s\<lparr>installed_screens := AList.delete name (installed_screens s)\<rparr>))
      | ByInstance x \<Rightarrow>
          if in_any_stack x s then (Inl ScreenStackError, s)
          else (case find (\<lambda>(name, entry). entry = Instance x) (installed_screens s) of
                  Some (name, entry) \<Rightarrow>
                    (Inr (Some name),
                     s\<lparr>installed_screens := AList.delete name (installed_screens s)\<rparr>)
                | None \<Rightarrow> (Inr None, s)))"


text \<open>\<open>get_screen\<close>: a name is looked up in the catalog (\<open>KeyError\<close> when it is not
  there); a callable found there is called and its screen cached under the name.\<close>

definition get_screen :: "screen_arg \<Rightarrow> controller \<Rightarrow> (error + screen) \<times> controller" where
  "get_screen a s =
     (case a of
        ByName name \<Rightarrow>
          (case map_of (installed_screens s) name of
             None \<Rightarrow> (Inl KeyError, s)
           | Some (Factory f) \<Rightarrow>
               (Inr f, s\<lparr>installed_screens := AList.update name (Instance f) (installed_screens s)\<rparr>)
           | Some (Instance x) \<Rightarrow> (Inr x, s))
      | ByInstance x \<Rightarrow> (Inr x, s))"

text \<open>\<open>_get_screen\<close>: a screen that is not running is registered first.  The pump of a
  registered screen starts in its own task, so \<open>is_running\<close> is not changed here.\<close>

definition get_screen_mount ::
  "screen_arg \<Rightarrow> controller \<Rightarrow> (error + screen \<times> awaitable) \<times> controller" where
  "get_screen_mount a s =
     (case get_screen a s of
        (Inl e, s1) \<Rightarrow> (Inl e, s1)
      | (Inr x, s1) \<Rightarrow>
          if \<not> is_running s1 x
          then (Inr (x, AwaitMount x True), emit (CallNextAwaitMount x) (emit (Register x) s1))
          else (Inr (x, AwaitMount x False), emit (CallNextAwaitMount x) s1))"

text \<open>\<open>push_screen\<close>.  The argument is a screen or a name (the \<open>TypeError\<close> of any
  other value is excluded by the type).  \<open>active_pump\<close> is the value of the context
  variable \<open>active_message_pump\<close>, if set; \<open>in_worker\<close> tells whether
  \<open>get_current_worker()\<close> finds a worker.  The future is created first; it is the one
  handed to the result callback and returned when \<open>wait_for_dismiss\<close> is set.\<close>

definition push_screen ::
  "screen_arg \<Rightarrow> nat option \<Rightarrow> bool \<Rightarrow> pump option \<Rightarrow> bool \<Rightarrow> controller
     \<Rightarrow> (error + awaitable) \<times> controller" where
  "push_screen a callback wait_for_dismiss active_pump in_worker s =
     (let future = future_count s;
          s0 = s\<lparr>future_count := Suc future\<rparr>
      in case screen_stack_ref s0 of
           None \<Rightarrow> (Inl KeyError, s0)
         | Some stack \<Rightarrow>
             let s1 = (if stack \<noteq> []
                       then emit (Refresh (last stack))
                              (emit (PostMessage (last stack) ScreenSuspend) s0)
                       else s0)
             in case get_screen_mount a s1 of
                  (Inl e, s2) \<Rightarrow> (Inl e, s2)
                | (Inr (next_screen, await_mount), s2) \<Rightarrow>
                    let message_pump = (case active_pump of Some p \<Rightarrow> p | None \<Rightarrow> AppPump);
                        s3 = push_result_callback next_screen message_pump callback (Some future) s2;
                        s4 = emit (LoadScreenCss next_screen) s3
                    in case screen_stack_ref s4 of
                         None \<Rightarrow> (Inl KeyError, s4)
                       | Some stack' \<Rightarrow>
                           let s5 = s4\<lparr>screen_stacks :=
                                        AList.update (current_mode s4) (stack' @ [next_screen])
                                          (screen_stacks s4)\<rparr>;
                               s6 = emit (StylesheetUpdate next_screen) s5;
                               s7 = emit (PostMessage next_screen ScreenResume) s6
                           in if wait_for_dismiss
                              then (if in_worker then (Inr (Future future), s7)
                                    else (Inl NoActiveWorker, s7))
                              else (Inr await_mount, s7))"

text \<open>Modelled from the spec: \<open>Screen.dismiss\<close> is part of the screen class, which is not
  among the sources.  The spec (sections 3 and 4.3): the result of a screen is delivered
  through the future/callback pair established at push time, and the future returned by
  push resolves with the value passed to that screen's dismiss; the screen is then popped.
  The value goes to the latest pair of the screen.\<close>

definition dismiss :: "screen \<Rightarrow> int \<Rightarrow> controller \<Rightarrow> (error + screen) \<times> controller" where
  "dismiss x result s =
     (let s1 = (if result_callbacks s x = [] then s
                else case last (result_callbacks s x) of
                       ResultCallback requester callback future \<Rightarrow>
                         let s' = (case future of
                                     Some f \<Rightarrow> s\<lparr>future_result := (future_result s)(f \<mapsto> result)\<rparr>
                                   | None \<Rightarrow> s)
                         in (case callback of
                               Some c \<Rightarrow> emit (CallNextCallback requester c result) s'
                             | None \<Rightarrow> s'))
      in pop_screen s1)"

text \<open>A controller with two modes, two screens on the default stack and two installed
  screens, one of them not yet instantiated.\<close>

definition example_controller :: controller where
  "example_controller =
     \<lparr>screen_stacks = [(''_default'', [1, 2]), (''help'', [3])],
      current_mode = ''_default'',
      installed_screens = [(''settings'', Instance 3), (''about'', Factory 4)],
      is_running = (\<lambda>x. x = 1 \<or> x = 2 \<or> x = 3),
      result_callbacks = (\<lambda>x. []),
      future_count = 0,
      future_result = Map.empty,
      events = []\<rparr>"

section \<open>Calling from another thread: \<open>call_from_thread\<close>\<close>

text \<open>
  \<open>app_components/app.py\<close>.  The application records its event loop in \<open>_loop\<close>
  (\<open>None\<close> until \<open>lifespan_controller\<close> sets it when the application starts, and
  again after it has stopped) and the identifier of the thread that runs the loop in
  \<open>_thread_id\<close>.  The callback runs on the loop, after \<open>_set_active\<close>; the calling
  thread blocks on \<open>future.result()\<close>, which returns the result of the callback or raises
  the exception the callback raised.  A callback is a function from the application to its
  outcome and the application it leaves behind.
\<close>

datatype py_exception = RuntimeError string | CallbackException string

record app =
  loop :: "nat option"
  thread_id :: nat
  active_app :: bool

definition set_active :: "app \<Rightarrow> app" where
  "set_active a = a\<lparr>active_app := True\<rparr>"

definition call_from_thread ::
  "(app \<Rightarrow> (py_exception + int) \<times> app) \<Rightarrow> nat \<Rightarrow> app \<Rightarrow> (py_exception + int) \<times> app" where
  "call_from_thread callback ident a =
     (if loop a = None then (Inl (RuntimeError ''App is not running''), a)
      else if thread_id a = ident
      then (Inl (RuntimeError
              ''The `call_from_thread` method must run in a different thread from the app''), a)
      else callback (set_active a))"

section \<open>Dispatching actions: \<open>_dispatch_action\<close>\<close>

text \<open>
  \<open>app_event_handler.py\<close>.  The namespace of an action is an object; \<open>getattr\<close> with
  default \<open>None\<close> finds no attribute, an attribute that is not callable, or a method.  A
  method takes the parameters and returns, or raises \<open>SkipAction\<close> or another exception.
  The names of the methods that were invoked are recorded.
\<close>

datatype action_exception = SkipAction | HandlerException string

datatype attribute = Missing | NotCallable | Method "int list \<Rightarrow> action_exception option"

type_synonym namespace = "string \<Rightarrow> attribute"

definition invoke_method ::
  "string \<Rightarrow> (int list \<Rightarrow> action_exception option) \<Rightarrow> int list \<Rightarrow> string list
     \<Rightarrow> (action_exception + bool) \<times> string list" where
  "invoke_method name m params invoked =
     (case m params of
        None \<Rightarrow> (Inr True, invoked @ [name])
      | Some SkipAction \<Rightarrow> (Inr False, invoked @ [name])
      | Some e \<Rightarrow> (Inl e, invoked @ [name]))"

definition dispatch_action ::
  "namespace \<Rightarrow> string \<Rightarrow> int list \<Rightarrow> (action_exception + bool) \<times> string list" where
  "dispatch_action ns action_name params =
     (case ns (''_action_'' @ action_name) of
        Method private_method \<Rightarrow> invoke_method (''_action_'' @ action_name) private_method params []
      | _ \<Rightarrow>
          (case ns (''action_'' @ action_name) of
             Method public_method \<Rightarrow> invoke_method (''action_'' @ action_name) public_method params []
           | _ \<Rightarrow> (Inr False, [])))"

text \<open>The outcome of a dispatch that invokes a handler, read off what the handler does
  with the parameters: \<open>True\<close> when it returns, \<open>False\<close> when it raises
  \<open>SkipAction\<close>, and any other exception goes on to the caller.\<close>

definition handled :: "action_exception option \<Rightarrow> action_exception + bool" where
  "handled outcome =
     (case outcome of
        None \<Rightarrow> Inr True
      | Some SkipAction \<Rightarrow> Inr False
      | Some (HandlerException x) \<Rightarrow> Inl (HandlerException x))"

text \<open>A namespace with both handlers for \<open>quit\<close>, the private one declining and the
  public one returning; both handlers for \<open>close\<close>, the private one returning and the
  public one failing; a public handler for \<open>save\<close> beside a private attribute that is
  not callable; and only a public handler, which declines, for \<open>open\<close>.\<close>

definition example_namespace :: namespace where
  "example_namespace =
     (\<lambda>_. Missing)
       (''_action_quit'' := Method (\<lambda>_. Some SkipAction),
        ''action_quit'' := Method (\<lambda>_. None),
        ''_action_close'' := Method (\<lambda>_. None),
        ''action_close'' := Method (\<lambda>_. Some (HandlerException ''public'')),
        ''_action_save'' := NotCallable,
        ''action_save'' := Method (\<lambda>_. None),
        ''action_open'' := Method (\<lambda>_. Some SkipAction))"

section \<open>Registration of widgets: \<open>_register_child\<close>, \<open>_register\<close>, \<open>_unregister\<close>\<close>

text \<open>
  \<open>app_compositor.py\<close>.  A widget is an object; its identity is a number.  The store
  holds, for each node, its ordered child list \<open>_nodes\<close> and its parent pointer
  \<open>_parent\<close>, the registry of the application (a weak set; only membership is used),
  the widget that has the focus on the current screen, the widgets whose pump is running
  (\<open>_running\<close>) and whether the application is running.
  What registration does to a widget beyond that (\<open>_post_register\<close>, the start of its
  pump, the style sheet) is recorded in \<open>dom_events\<close>.
\<close>

type_synonym widget_id = nat

datatype app_error = AppError

datatype dom_event = PostRegister widget_id | StartMessages widget_id | ApplyStylesheet widget_id

record dom =
  nodes :: "widget_id \<Rightarrow> widget_id list"
  parent :: "widget_id \<Rightarrow> widget_id option"
  registry :: "widget_id set"
  focused :: "widget_id option"
  pump_running :: "widget_id set"
  app_running :: bool
  dom_events :: "dom_event list"

text \<open>Python's \<open>list.insert(index, x)\<close>: a negative index counts from the end, and an
  index beyond either end is clamped to it.\<close>

definition list_insert :: "int \<Rightarrow> 'a \<Rightarrow> 'a list \<Rightarrow> 'a list" where
  "list_insert index x xs =
     (let n = int (length xs);
          j = (if index < 0 then max 0 (n + index) else min index n)
      in take (nat j) xs @ x # drop (nat j) xs)"

text \<open>Modelled from the spec: the class of the child list (\<open>NodeList\<close>, with \<open>_insert\<close>,
  \<open>_append\<close> and \<open>_remove\<close>) is not among the sources.  The spec (section 4.2): the
  child is inserted into the parent's ordered child list at a position derived from
  \<open>before\<close>/\<open>after\<close>, and unregistering detaches a node from its parent's child list.
  The list holds each widget once: inserting or appending a widget that is in the list
  changes nothing, and removing a widget that is not in the list changes nothing.\<close>

definition node_list_insert :: "int \<Rightarrow> widget_id \<Rightarrow> widget_id list \<Rightarrow> widget_id list" where
  "node_list_insert index w ns = (if w \<notin> set ns then list_insert index w ns else ns)"

definition node_list_append :: "widget_id \<Rightarrow> widget_id list \<Rightarrow> widget_id list" where
  "node_list_append w ns = (if w \<notin> set ns then ns @ [w] else ns)"

definition node_list_remove :: "widget_id \<Rightarrow> widget_id list \<Rightarrow> widget_id list" where
  "node_list_remove w ns = remove1 w ns"

text \<open>\<open>_register_child\<close>.  The result is the exception raised, if any.\<close>

definition register_child ::
  "widget_id \<Rightarrow> widget_id \<Rightarrow> int option \<Rightarrow> int option \<Rightarrow> dom \<Rightarrow> app_error option \<times> dom" where
  "register_child p child before_index after_index d =
     (if before_index \<noteq> None \<and> after_index \<noteq> None then (Some AppError, d)
      else if child \<notin> registry d then
        let d1 = (if before_index \<noteq> None
                  then d\<lparr>nodes := (nodes d)(p := node_list_insert (the before_index) child (nodes d p))\<rparr>
                  else if after_index \<noteq> None \<and> after_index \<noteq> Some (- 1)
                  then d\<lparr>nodes := (nodes d)(p := node_list_insert (the after_index + 1) child (nodes d p))\<rparr>
                  else d\<lparr>nodes := (nodes d)(p := node_list_append child (nodes d p))\<rparr>);
            d2 = d1\<lparr>registry := insert child (registry d1)\<rparr>;
            d3 = d2\<lparr>parent := (parent d2)(child \<mapsto> p)\<rparr>;
            d4 = d3\<lparr>dom_events := dom_events d3 @ [PostRegister child, StartMessages child]\<rparr>
        in (None, d4)
      else (None, d))"

text \<open>The loop of \<open>_register\<close> over the widgets.  A widget that is not in the registry
  is registered as a child, then its own children are registered under it (the recursive
  call has neither \<open>before\<close> nor \<open>after\<close>, and its result list is dropped), then the
  style sheet is applied to it.  The recursion follows the child lists of the store, so
  the loop is a partial function: \<open>None\<close> is a run that does not end.\<close>

partial_function (option) register_loop ::
  "widget_id \<Rightarrow> widget_id list \<Rightarrow> int option \<Rightarrow> int option \<Rightarrow> dom
     \<Rightarrow> (app_error option \<times> dom) option" where
  "register_loop p widget_list before_index after_index d =
     (case widget_list of
        [] \<Rightarrow> Some (None, d)
      | w # rest \<Rightarrow>
          if w \<notin> registry d then
            (case register_child p w before_index after_index d of
               (Some e, d1) \<Rightarrow> Some (Some e, d1)
             | (None, d1) \<Rightarrow>
                 Option.bind
                   (if nodes d1 w \<noteq> [] then register_loop w (nodes d1 w) None None d1
                    else Some (None, d1))
                   (\<lambda>r. case r of
                      (Some e, d2) \<Rightarrow> Some (Some e, d2)
                    | (None, d2) \<Rightarrow>
                        register_loop p rest before_index after_index
                          (d2\<lparr>dom_events := dom_events d2 @ [ApplyStylesheet w]\<rparr>)))
          else register_loop p rest before_index after_index d)"

declare register_loop.simps [code]

text \<open>\<open>_register\<close>: nothing to do for no widgets; the widgets are taken in reverse when
  a position is given; the result is the list of widgets, or the empty list when the
  application is not running.\<close>

definition register ::
  "widget_id \<Rightarrow> widget_id list \<Rightarrow> int option \<Rightarrow> int option \<Rightarrow> dom
     \<Rightarrow> ((app_error + widget_id list) \<times> dom) option" where
  "register p widgets before_index after_index d =
     (if widgets = [] then Some (Inr [], d)
      else
        case register_loop p
               (if before_index \<noteq> None \<or> after_index \<noteq> None then rev widgets else widgets) before_index after_index d of
          None \<Rightarrow> None
        | Some (Some e, d1) \<Rightarrow> Some (Inl e, d1)
        | Some (None, d1) \<Rightarrow> Some (Inr (if \<not> app_running d1 then [] else widgets), d1))"

text \<open>A root 0 with the registered children 1 and 2; widget 3, with the child 4, is not
  registered yet.\<close>

definition example_dom :: dom where
  "example_dom =
     \<lparr>nodes = (\<lambda>_. [])(0 := [1, 2], 3 := [4]),
      parent = (\<lambda>_. None)(1 := Some 0, 2 := Some 0, 4 := Some 3),
      registry = {0, 1, 2},
      focused = Some 2,
      pump_running = {0, 1, 2},
      app_running = True,
      dom_events = []\<rparr>"

section \<open>Detaching widgets: \<open>_detach_from_dom\<close>\<close>

text \<open>
  \<open>app_screen_controller.py\<close>.  The function reads four things of the nodes whose class
  (\<open>DOMNode\<close>, \<open>Widget\<close>, \<open>Screen\<close>) is not among the sources; they are parameters:
  the property \<open>ancestors\<close> of a widget, the list
  \<open>walk_children(Widget, with_self=True, method="depth", reverse=True)\<close> of a widget, the
  property \<open>can_focus\<close>, and the widget that \<open>Screen._reset_focus\<close> moves the focus
  to.  \<open>is_widget\<close> tells the widgets from the other nodes (the application); it is used
  by \<open>_unregister\<close>.
\<close>

record dom_view =
  ancestors :: "widget_id \<Rightarrow> widget_id list"
  dom_walk_children :: "widget_id \<Rightarrow> widget_id list"
  can_focus :: "widget_id \<Rightarrow> bool"
  reset_focus :: "widget_id \<Rightarrow> widget_id list \<Rightarrow> widget_id option"
  is_widget :: "widget_id \<Rightarrow> bool"

text \<open>The two passes over the widgets to detach: the parent forgets the widget
  (\<open>widget.parent._nodes._remove(widget)\<close>), and the widget forgets its parent
  (\<open>node._detach()\<close>).\<close>

definition forget_child :: "widget_id \<Rightarrow> dom \<Rightarrow> dom" where
  "forget_child w d =
     (case parent d w of
        Some p \<Rightarrow> d\<lparr>nodes := (nodes d)(p := node_list_remove w (nodes d p))\<rparr>
      | None \<Rightarrow> d)"

text \<open>Modelled from the spec: \<open>DOMNode._detach\<close> is not among the sources.  The spec
  (section 3): a node has a parent reference and is created detached; detaching clears
  the reference.\<close>

definition detach :: "widget_id \<Rightarrow> dom \<Rightarrow> dom" where
  "detach w d = d\<lparr>parent := (parent d)(w := None)\<rparr>"




definition example_view :: dom_view where
  "example_view =
     \<lparr>ancestors = (\<lambda>_. [])(1 := [0], 2 := [0], 5 := [1, 0], 6 := [1, 0], 7 := [6, 1, 0]),
      dom_walk_children = (\<lambda>w. [w])(0 := [2, 7, 6, 5, 1, 0], 1 := [7, 6, 5, 1], 6 := [7, 6]),
      can_focus = (\<lambda>w. w = 2 \<or> w = 7),
      reset_focus = (\<lambda>f avoiding. if 2 \<in> set avoiding then None else Some 2),
      is_widget = (\<lambda>w. w \<noteq> 0)\<rparr>"

section \<open>Pruning a subtree: \<open>_walk_children\<close>, \<open>_unregister\<close>, \<open>_prune_node\<close>\<close>

text \<open>
  \<open>_prune_node\<close> first reads the whole subtree below the root
  (\<open>list(self._walk_children(root))\<close>) and only then closes and unregisters.  The
  subtree it reads is a tree value: a widget with its identity, its child list \<open>_nodes\<close>
  and the widgets of \<open>_get_virtual_dom()\<close> (a method of the widget class, which is not
  among the sources; what it returns is part of the value).
\<close>

datatype widget = Widget (wid: widget_id) (child_nodes: "widget list") (virtual_dom: "widget list")

text \<open>\<open>_walk_children\<close>: the loop over the stack, whose top is the last element.  Each
  widget popped yields the list of its children and virtual widgets, if not empty, and
  pushes its children.\<close>

function walk_stack :: "widget list \<Rightarrow> widget list list" where
  "walk_stack stack =
     (if stack = [] then []
      else
        let widget = last stack;
            children = child_nodes widget @ virtual_dom widget
        in (if children \<noteq> [] then [children] else [])
           @ walk_stack (butlast stack @ child_nodes widget))"
  by pat_completeness auto

lemma sum_size_child_nodes: "sum_list (map size (child_nodes w)) < size w"
proof (cases w)
  case (Widget i ns vs)
  have "sum_list (map size ns) \<le> size_list size ns"
    by (induction ns) simp_all
  then show ?thesis using Widget by simp
qed

termination walk_stack
proof (relation "measure (\<lambda>stack. sum_list (map size stack))")
  show "wf (measure (\<lambda>stack. sum_list (map size stack)))" by simp
next
  fix stack :: "widget list" and x xa
  assume "stack \<noteq> []" and "x = last stack"
  then obtain rest where s: "stack = rest @ [x]" by (cases stack rule: rev_cases) auto
  show "(butlast stack @ child_nodes x, stack) \<in> measure (\<lambda>stack. sum_list (map size stack))"
    using sum_size_child_nodes[of x] by (simp add: s)
qed

declare walk_stack.simps [simp del]

definition walk_children :: "widget \<Rightarrow> widget list list" where
  "walk_children root = walk_stack [root]"

text \<open>Modelled from the spec: \<open>_close_messages(wait=True)\<close> belongs to the message pump,
  which is not among the sources.  The spec (section 4.1): \<open>close(wait)\<close> requests
  drain-and-stop, and with \<open>wait\<close> the caller is suspended until the pump has exited.
  After it the pump of the widget is not running.\<close>

definition close_messages :: "widget_id \<Rightarrow> dom \<Rightarrow> dom" where
  "close_messages w d = d\<lparr>pump_running := pump_running d - {w}\<rparr>"

text \<open>Modelled from the spec: \<open>Widget.blur\<close> is not among the sources.  The spec (section
  4.2): unregistering removes focus from the node if it holds it.\<close>

definition blur :: "widget_id \<Rightarrow> dom \<Rightarrow> dom" where
  "blur w d = (if focused d = Some w then d\<lparr>focused := None\<rparr> else d)"

text \<open>\<open>_unregister\<close> (\<open>app_compositor.py\<close>): the widget loses the focus, a parent that
  is a widget forgets it and it forgets that parent, and it leaves the registry.  Its
  pump is not touched.\<close>

definition unregister :: "dom_view \<Rightarrow> widget_id \<Rightarrow> dom \<Rightarrow> dom" where
  "unregister v w d =
     (let d1 = blur w d;
          d2 = (case parent d1 w of
                  Some p \<Rightarrow> if is_widget v p then detach w (forget_child w d1) else d1
                | None \<Rightarrow> d1)
      in d2\<lparr>registry := registry d2 - {w}\<rparr>)"

text \<open>What pruning does to the pumps and the registry, in order.\<close>

datatype prune_event = CloseMessages widget | Unregistered widget

text \<open>One round of the loop of \<open>_prune_node\<close> over the lists of children: the children
  whose pump is running are closed together (\<open>asyncio.gather\<close>); if there was one, every
  child of the list is unregistered.\<close>

definition close_children ::
  "dom_view \<Rightarrow> widget list \<Rightarrow> prune_event list \<times> dom \<Rightarrow> prune_event list \<times> dom" where
  "close_children v children td =
     (case td of
        (t, d) \<Rightarrow>
          let close_messages_list = filter (\<lambda>child. wid child \<in> pump_running d) children
          in if close_messages_list \<noteq> []
             then (t @ map CloseMessages close_messages_list @ map Unregistered children,
                   fold (\<lambda>child. unregister v (wid child)) children
                     (fold (\<lambda>child. close_messages (wid child)) close_messages_list d))
             else (t, d))"

text \<open>\<open>_prune_node\<close>: nothing for a root that is not in the registry; otherwise the lists
  of children in reverse, then the root.\<close>

definition prune_node :: "dom_view \<Rightarrow> widget \<Rightarrow> dom \<Rightarrow> prune_event list \<times> dom" where
  "prune_node v root d =
     (if wid root \<notin> registry d then ([], d)
      else
        let node_children = walk_children root
        in case fold (close_children v) (rev node_children) ([], d) of
             (t, d1) \<Rightarrow>
               (t @ [CloseMessages root, Unregistered root],
                unregister v (wid root) (close_messages (wid root) d1)))"

subsection \<open>Orders of shutdown\<close>

text \<open>The walk in the words of its docstring, depth first: the child list of a widget,
  then the lists below its children, the last child first (it is on top of the stack).\<close>

fun child_lists :: "widget \<Rightarrow> widget list list" where
  "child_lists (Widget i ns vs) =
     (if ns @ vs \<noteq> [] then [ns @ vs] else []) @ concat (map child_lists (rev ns))"

text \<open>The events of one child list, given the pumps that run: the running pumps of the
  list are closed together and then every widget of the list is unregistered; a list
  without a running pump gives no event.  The events of a sequence of child lists are
  those of each list in turn, the closed pumps no longer running.\<close>

definition round_events :: "widget_id set \<Rightarrow> widget list \<Rightarrow> prune_event list" where
  "round_events R children =
     (if \<exists>c \<in> set children. wid c \<in> R
      then map CloseMessages (filter (\<lambda>c. wid c \<in> R) children) @ map Unregistered children
      else [])"

fun unregistered_ids :: "prune_event list \<Rightarrow> widget_id set" where
  "unregistered_ids [] = {}"
| "unregistered_ids (CloseMessages x # es) = unregistered_ids es"
| "unregistered_ids (Unregistered x # es) = insert (wid x) (unregistered_ids es)"

text \<open>The pumps that run after a sequence of events, and the order the code keeps: no
  widget is closed or unregistered while the pump of one of its children (or virtual
  widgets) is running.\<close>

definition children_stopped :: "widget_id set \<Rightarrow> widget \<Rightarrow> bool" where
  "children_stopped R x \<longleftrightarrow> (\<forall>c \<in> set (child_nodes x @ virtual_dom x). wid c \<notin> R)"

fun running_after :: "widget_id set \<Rightarrow> prune_event list \<Rightarrow> widget_id set" where
  "running_after R [] = R"
| "running_after R (CloseMessages x # es) = running_after (R - {wid x}) es"
| "running_after R (Unregistered x # es) = running_after R es"

fun rounds_events :: "widget_id set \<Rightarrow> widget list list \<Rightarrow> prune_event list" where
  "rounds_events R [] = []"
| "rounds_events R (children # rest) =
     round_events R children @ rounds_events (running_after R (round_events R children)) rest"

fun children_first :: "widget_id set \<Rightarrow> prune_event list \<Rightarrow> bool" where
  "children_first R [] = True"
| "children_first R (CloseMessages x # es) =
     (children_stopped R x \<and> children_first (R - {wid x}) es)"
| "children_first R (Unregistered x # es) =
     (children_stopped R x \<and> children_first R es)"

text \<open>Virtual widgets (scroll bars) have no children of their own; \<open>_walk_children\<close> does
  not descend into them.\<close>

fun virtual_leaves :: "widget \<Rightarrow> bool" where
  "virtual_leaves (Widget i ns vs) =
     ((\<forall>x \<in> set vs. child_nodes x = [] \<and> virtual_dom x = []) \<and> (\<forall>n \<in> set ns. virtual_leaves n))"

text \<open>The spec's words, level by level: the depth of every widget of the tree, and the
  demand that the pumps are closed deepest level first, so that the depths of the closed
  widgets never increase along the events.\<close>

fun depths :: "nat \<Rightarrow> widget \<Rightarrow> (widget_id \<times> nat) list" where
  "depths n (Widget i ns vs) = (i, n) # concat (map (depths (Suc n)) (ns @ vs))"

fun closed_depths :: "widget \<Rightarrow> prune_event list \<Rightarrow> nat option list" where
  "closed_depths root [] = []"
| "closed_depths root (CloseMessages x # es) = map_of (depths 0 root) (wid x) # closed_depths root es"
| "closed_depths root (Unregistered x # es) = closed_depths root es"

definition deepest_level_first :: "widget \<Rightarrow> prune_event list \<Rightarrow> bool" where
  "deepest_level_first root t \<longleftrightarrow> sorted (rev (map the (closed_depths root t)))"

text \<open>A root 10 with the children 11 and 12; 11 has the child 13; 12 has the child 14,
  which has the child 15.  Every pump runs.\<close>

definition example_widget :: widget where
  "example_widget =
     Widget 10 [Widget 11 [Widget 13 [] []] [],
                Widget 12 [Widget 14 [Widget 15 [] []] []] []] []"

definition example_prune_dom :: dom where
  "example_prune_dom =
     \<lparr>nodes = (\<lambda>_. [])(10 := [11, 12], 11 := [13], 12 := [14], 14 := [15]),
      parent = (\<lambda>_. None)(10 := Some 0, 11 := Some 10, 12 := Some 10, 13 := Some 11,
                           14 := Some 12, 15 := Some 14),
      registry = {0, 10, 11, 12, 13, 14, 15},
      focused = None,
      pump_running = {0, 10, 11, 12, 13, 14, 15},
      app_running = True,
      dom_events = []\<rparr>"

text \<open>A widget 20 with a virtual widget 21 that has the child 22.  Every pump runs.\<close>

definition example_virtual_widget :: widget where
  "example_virtual_widget = Widget 20 [] [Widget 21 [Widget 22 [] []] []]"

definition example_virtual_dom :: dom where
  "example_virtual_dom =
     \<lparr>nodes = (\<lambda>_. [])(21 := [22]),
      parent = (\<lambda>_. None)(20 := Some 0, 21 := Some 20, 22 := Some 21),
      registry = {0, 20, 21, 22},
      focused = None,
      pump_running = {0, 20, 21, 22},
      app_running = True,
      dom_events = []\<rparr>"

section \<open>Properties of \<open>batch_update\<close>: the exits flush once\<close>

lemma end_batch_inner:
  "1 < batch_count r \<Longrightarrow> end_batch r = (None, r\<lparr>batch_count := batch_count r - 1\<rparr>)"
  by (simp add: end_batch_def Let_def)

lemma end_batch_outer:
  "batch_count r = 1 \<Longrightarrow>
   end_batch r = (None, r\<lparr>batch_count := 0, batch_trace := batch_trace r @ [CheckIdle]\<rparr>)"
  by (simp add: end_batch_def Let_def check_idle_def)

lemma refresh_fields:
  "batch_count (refresh c r) = batch_count r"
  "has_screen (refresh c r) = has_screen r"
  "batch_trace (refresh c r) = batch_trace r @ fst (stmt_events (has_screen r) (RefreshStmt c))"
  by (simp_all add: refresh_def check_idle_def)

text \<open>Inside an open batch (counter positive) every statement and every body does what its
  statements do by themselves: no exit of a nested scope adds an event.\<close>

lemma exec_runs_as:
  "0 < batch_count r \<Longrightarrow> runs_as r (stmt_events (has_screen r) c) (exec_stmt c r)"
  "0 < batch_count r \<Longrightarrow> runs_as r (body_events (has_screen r) cs) (exec_body cs r)"
proof (induction c r and cs r rule: exec_stmt_exec_body.induct)
  case (1 body r)
  obtain y r2 where b: "exec_body body (begin_batch r) = (y, r2)"
    by (cases "exec_body body (begin_batch r)")
  have pos: "0 < batch_count (begin_batch r)" using 1(2) by (simp add: begin_batch_def)
  have q: "runs_as (begin_batch r) (body_events (has_screen r) body) (y, r2)"
    using 1(1)[OF pos] b by (simp add: begin_batch_def)
  then have c2: "batch_count r2 = batch_count r + 1" and h2: "has_screen r2 = has_screen r"
    and t2: "batch_trace r2 = batch_trace r @ fst (body_events (has_screen r) body)"
    and y: "y = (if snd (body_events (has_screen r) body) then Some UserException else None)"
    unfolding runs_as_def begin_batch_def by simp_all
  have e: "end_batch r2 = (None, r2\<lparr>batch_count := batch_count r2 - 1\<rparr>)"
    using c2 1(2) by (intro end_batch_inner) simp
  have "exec_stmt (WithBatch body) r = (y, r2\<lparr>batch_count := batch_count r2 - 1\<rparr>)"
    by (simp add: b e)
  then show ?case using y t2 c2 h2 by (simp add: runs_as_def)
next
  case (2 r)
  then show ?case by (simp add: runs_as_def)
next
  case (3 recompose r)
  then show ?case by (simp add: runs_as_def refresh_fields)
next
  case (4 r)
  then show ?case by (simp add: runs_as_def check_idle_def)
next
  case (5 r)
  then show ?case by (simp add: runs_as_def)
next
  case (6 c cs r)
  obtain y r1 where c: "exec_stmt c r = (y, r1)" by (cases "exec_stmt c r")
  obtain es raised where se: "stmt_events (has_screen r) c = (es, raised)"
    by (cases "stmt_events (has_screen r) c")
  have q: "runs_as r (es, raised) (y, r1)" using 6(1)[OF 6(3)] c se by simp
  then have c1: "batch_count r1 = batch_count r" and h1: "has_screen r1 = has_screen r"
    and t1: "batch_trace r1 = batch_trace r @ es"
    and y: "y = (if raised then Some UserException else None)"
    unfolding runs_as_def by simp_all
  show ?case
  proof (cases raised)
    case True
    then show ?thesis using c se c1 h1 t1 y by (simp add: runs_as_def)
  next
    case False
    then have yn: "y = None" using y by simp
    have pos: "0 < batch_count r1" using c1 6(3) by simp
    have q2: "runs_as r1 (body_events (has_screen r) cs) (exec_body cs r1)"
      using 6(2)[OF c[symmetric] yn pos] h1 by simp
    obtain es' raised' where be: "body_events (has_screen r) cs = (es', raised')"
      by (cases "body_events (has_screen r) cs")
    show ?thesis using q2 be se False c yn c1 h1 t1 by (simp add: runs_as_def)
  qed
qed

text \<open>
  Claim C2, as the code has it.  Entering a \<open>batch_update\<close> scope increments the counter
  and leaving it decrements it, also when the body raises.  For every body of nested
  scopes, raising statements, refreshes and calls of \<open>check_idle\<close>, run from a counter
  \<open>n \<ge> 0\<close>: the scope restores the counter to \<open>n\<close> and raises what the body raises; the
  trace grows by the events the statements of the body make by themselves and, if
  \<open>n = 0\<close> (the scope is the outermost one), by one \<open>check_idle\<close> after them.  So the
  exits of the scopes call \<open>check_idle\<close> exactly once, at the exit of the outermost
  scope, and never at the exit of a nested one; the calls of \<open>check_idle\<close> that a
  \<open>refresh\<close> in the body makes come on top of it.
\<close>

theorem batch_update_exit_flush:
  "batch_count (begin_batch r) = batch_count r + 1 \<and>
   batch_count (snd (end_batch r)) = batch_count r - 1 \<and>
   (0 \<le> batch_count r \<longrightarrow>
      batch_count (snd (batch_update body r)) = batch_count r \<and>
      fst (batch_update body r) =
        (if snd (body_events (has_screen r) body) then Some UserException else None) \<and>
      batch_trace (snd (batch_update body r)) =
        batch_trace r @ fst (body_events (has_screen r) body)
          @ (if batch_count r = 0 then [CheckIdle] else []))"
proof (intro conjI impI)
  show "batch_count (begin_batch r) = batch_count r + 1" by (simp add: begin_batch_def)
  show "batch_count (snd (end_batch r)) = batch_count r - 1"
    by (simp add: end_batch_def Let_def check_idle_def)
next
  assume n: "0 \<le> batch_count r"
  obtain y r2 where b: "exec_body body (begin_batch r) = (y, r2)"
    by (cases "exec_body body (begin_batch r)")
  have pos: "0 < batch_count (begin_batch r)" using n by (simp add: begin_batch_def)
  have "runs_as (begin_batch r) (body_events (has_screen r) body) (y, r2)"
    using exec_runs_as(2)[OF pos, of body] b by (simp add: begin_batch_def)
  then have c2: "batch_count r2 = batch_count r + 1"
    and t: "batch_trace r2 = batch_trace r @ fst (body_events (has_screen r) body)"
    and y: "y = (if snd (body_events (has_screen r) body) then Some UserException else None)"
    unfolding runs_as_def begin_batch_def by simp_all
  have res: "batch_update body r =
      (y, if batch_count r = 0
          then r2\<lparr>batch_count := 0, batch_trace := batch_trace r2 @ [CheckIdle]\<rparr>
          else r2\<lparr>batch_count := batch_count r2 - 1\<rparr>)"
  proof (cases "batch_count r = 0")
    case True
    then have "end_batch r2 =
        (None, r2\<lparr>batch_count := 0, batch_trace := batch_trace r2 @ [CheckIdle]\<rparr>)"
      using c2 by (intro end_batch_outer) simp
    then show ?thesis using True b by (simp add: batch_update_def)
  next
    case False
    then have "end_batch r2 = (None, r2\<lparr>batch_count := batch_count r2 - 1\<rparr>)"
      using c2 n by (intro end_batch_inner) simp
    then show ?thesis using False b by (simp add: batch_update_def)
  qed
  show "batch_count (snd (batch_update body r)) = batch_count r" using res c2 by simp
  show "fst (batch_update body r) =
        (if snd (body_events (has_screen r) body) then Some UserException else None)"
    using res y by simp
  show "batch_trace (snd (batch_update body r)) =
        batch_trace r @ fst (body_events (has_screen r) body)
          @ (if batch_count r = 0 then [CheckIdle] else [])"
    using res t by simp
qed

text \<open>An outermost scope holding two levels of nested scopes with a recompose request, an
  empty scope, and a statement that raises: one \<open>check_idle\<close>, at the end, and the
  exception leaves the scope.\<close>

theorem batch_update_exit_flush_witness:
  "(0::int) \<le> batch_count example_renderer \<and>
   fst (batch_update [WithBatch [WithBatch [RefreshStmt True]], WithBatch [], RaiseStmt]
          example_renderer) = Some UserException \<and>
   batch_trace (snd (batch_update [WithBatch [WithBatch [RefreshStmt True]], WithBatch [], RaiseStmt]
          example_renderer)) = [CallNextCheckRecompose, CheckIdle] \<and>
   batch_count (snd (batch_update [WithBatch [WithBatch [RefreshStmt True]], WithBatch [], RaiseStmt]
          example_renderer)) = 0"
  using batch_update_exit_flush
    [of example_renderer "[WithBatch [WithBatch [RefreshStmt True]], WithBatch [], RaiseStmt]"]
  by (simp add: example_renderer_def)

text \<open>One scope around one \<open>refresh()\<close>: \<open>check_idle\<close> is called twice, by the
  refresh inside the batch and by the exit of the scope.\<close>

theorem batch_update_refresh_counterexample:
  "batch_trace (snd (batch_update [RefreshStmt False] example_renderer)) =
     [ScreenRefresh, CheckIdle, CheckIdle] \<and>
   count_list (batch_trace (snd (batch_update [RefreshStmt False] example_renderer))) CheckIdle \<noteq> 1"
  by (simp add: batch_update_def begin_batch_def end_batch_def check_idle_def refresh_def Let_def
      example_renderer_def)

section \<open>Properties of the screen stack controller\<close>

subsection \<open>Popping a screen\<close>

lemma emit_fields [simp]:
  "screen_stacks (emit e s) = screen_stacks s"
  "current_mode (emit e s) = current_mode s"
  "installed_screens (emit e s) = installed_screens s"
  "is_running (emit e s) = is_running s"
  "result_callbacks (emit e s) = result_callbacks s"
  "future_count (emit e s) = future_count s"
  "future_result (emit e s) = future_result s"
  "events (emit e s) = events s @ [e]"
  by (simp_all add: emit_def)

lemma screen_stack_ref_emit [simp]: "screen_stack_ref (emit e s) = screen_stack_ref s"
  by (simp add: screen_stack_ref_def)

lemma replace_screen_ok:
  assumes "screen_stack_ref s = Some stack"
  shows "fst (replace_screen x s) = Inr x"
    and "screen_stacks (snd (replace_screen x s)) = screen_stacks s"
    and "current_mode (snd (replace_screen x s)) = current_mode s"
    and "result_callbacks (snd (replace_screen x s)) = result_callbacks s"
    and "future_result (snd (replace_screen x s)) = future_result s"
    and "installed_screens (snd (replace_screen x s)) = installed_screens s"
  using assms by (simp_all add: replace_screen_def Let_def)

lemma pop_result_callback_fields [simp]:
  "screen_stacks (pop_result_callback x s) = screen_stacks s"
  "current_mode (pop_result_callback x s) = current_mode s"
  "installed_screens (pop_result_callback x s) = installed_screens s"
  "future_result (pop_result_callback x s) = future_result s"
  "events (pop_result_callback x s) = events s"
  by (simp_all add: pop_result_callback_def)

lemma screen_stack_ref_update:
  "screen_stack_ref (s\<lparr>screen_stacks := AList.update (current_mode s) st (screen_stacks s)\<rparr>) = Some st"
  by (simp add: screen_stack_ref_def update_conv')

lemma pop_screen_pops:
  assumes st: "screen_stack_ref s = Some stack" and len: "2 \<le> length stack"
  shows "fst (pop_screen s) = Inr (last stack)"
    and "screen_stack_ref (snd (pop_screen s)) = Some (butlast stack)"
    and "current_screen (snd (pop_screen s)) = Inr (last (butlast stack))"
    and "last (events (snd (pop_screen s))) = PostMessage (last (butlast stack)) ScreenResume"
    and "future_result (snd (pop_screen s)) = future_result s"
proof -
  define s1 where "s1 = s\<lparr>screen_stacks := AList.update (current_mode s) (butlast stack) (screen_stacks s)\<rparr>"
  have r1: "screen_stack_ref s1 = Some (butlast stack)"
    unfolding s1_def by (rule screen_stack_ref_update)
  obtain r s2 where rs: "replace_screen (last stack) s1 = (r, s2)"
    by (cases "replace_screen (last stack) s1")
  have r: "r = Inr (last stack)" using replace_screen_ok(1)[OF r1, of "last stack"] rs by simp
  have s2: "screen_stacks s2 = screen_stacks s1" "current_mode s2 = current_mode s1"
    "future_result s2 = future_result s1"
    using replace_screen_ok(2,3,5)[OF r1, of "last stack"] rs by simp_all
  define s3 where "s3 = pop_result_callback (last stack) s2"
  have r3: "screen_stack_ref s3 = Some (butlast stack)"
    using r1 s2 by (simp add: s3_def screen_stack_ref_def)
  have ne: "butlast stack \<noteq> []" using len by (cases stack rule: rev_cases) auto
  have cur: "current_screen s3 = Inr (last (butlast stack))"
    using r3 ne by (simp add: current_screen_def)
  have nle: "\<not> length stack \<le> 1" using len by simp
  have res: "pop_screen s = (Inr (last stack), emit (PostMessage (last (butlast stack)) ScreenResume) s3)"
    unfolding pop_screen_def using st nle rs r cur
    by (simp add: Let_def s1_def[symmetric] s3_def[symmetric])
  show "fst (pop_screen s) = Inr (last stack)" using res by simp
  show "screen_stack_ref (snd (pop_screen s)) = Some (butlast stack)" using res r3 by simp
  show "current_screen (snd (pop_screen s)) = Inr (last (butlast stack))"
    using res cur by (simp add: current_screen_def)
  show "last (events (snd (pop_screen s))) = PostMessage (last (butlast stack)) ScreenResume"
    using res by simp
  show "future_result (snd (pop_screen s)) = future_result s"
    using res s2 by (simp add: s3_def s1_def)
qed

text \<open>
  Claim C1.  When the stack of the current mode holds exactly one screen, \<open>pop_screen\<close>
  raises \<open>ScreenStackError\<close> and the controller, with that stack, is unchanged.  When it
  holds two or more screens, \<open>pop_screen\<close> returns the top screen, the stack loses it, the
  screen below is the current screen, and the last thing done is to post \<open>ScreenResume\<close>
  to it.
\<close>

theorem pop_screen_underflow_or_pop:
  "(screen_stack_ref s = Some [x] \<longrightarrow> pop_screen s = (Inl ScreenStackError, s)) \<and>
   (screen_stack_ref s = Some stack \<and> 2 \<le> length stack \<longrightarrow>
      fst (pop_screen s) = Inr (last stack) \<and>
      screen_stack_ref (snd (pop_screen s)) = Some (butlast stack) \<and>
      current_screen (snd (pop_screen s)) = Inr (last (butlast stack)) \<and>
      last (events (snd (pop_screen s))) = PostMessage (last (butlast stack)) ScreenResume)"
proof (intro conjI impI)
  assume "screen_stack_ref s = Some [x]"
  then show "pop_screen s = (Inl ScreenStackError, s)" by (simp add: pop_screen_def)
next
  assume a: "screen_stack_ref s = Some stack \<and> 2 \<le> length stack"
  then have st: "screen_stack_ref s = Some stack" and len: "2 \<le> length stack" by simp_all
  show "fst (pop_screen s) = Inr (last stack)" by (rule pop_screen_pops(1)[OF st len])
  show "screen_stack_ref (snd (pop_screen s)) = Some (butlast stack)" by (rule pop_screen_pops(2)[OF st len])
  show "current_screen (snd (pop_screen s)) = Inr (last (butlast stack))" by (rule pop_screen_pops(3)[OF st len])
  show "last (events (snd (pop_screen s))) = PostMessage (last (butlast stack)) ScreenResume"
    by (rule pop_screen_pops(4)[OF st len])
qed



text \<open>Mode \<open>help\<close> of the example holds one screen, the default mode two.\<close>

theorem pop_screen_underflow_or_pop_witness:
  "screen_stack_ref (example_controller\<lparr>current_mode := ''help''\<rparr>) = Some [3] \<and>
   pop_screen (example_controller\<lparr>current_mode := ''help''\<rparr>) =
     (Inl ScreenStackError, example_controller\<lparr>current_mode := ''help''\<rparr>) \<and>
   screen_stack_ref example_controller = Some [1, 2] \<and> 2 \<le> length [1, 2 :: nat] \<and>
   fst (pop_screen example_controller) = Inr 2 \<and>
   screen_stack_ref (snd (pop_screen example_controller)) = Some [1] \<and>
   current_screen (snd (pop_screen example_controller)) = Inr 1"
  using pop_screen_underflow_or_pop [of "example_controller\<lparr>current_mode := ''help''\<rparr>" 3 "[]"]
    pop_screen_underflow_or_pop [of example_controller 0 "[1, 2]"]
  by (simp add: example_controller_def screen_stack_ref_def)

subsection \<open>Uninstalling screens\<close>

text \<open>
  Claim C10.  For a screen that is on the stack of at least one mode, \<open>uninstall_screen\<close>
  raises \<open>ScreenStackError\<close> and leaves the controller, with its catalog of installed
  screens, unchanged: both when the screen object is given and when a name installed for
  that screen is given.  Uninstalling a name that is not installed returns \<open>None\<close> and
  changes nothing.
\<close>

theorem uninstall_screen_guard:
  "(in_any_stack x s \<longrightarrow> uninstall_screen (ByInstance x) s = (Inl ScreenStackError, s)) \<and>
   (in_any_stack x s \<and> map_of (installed_screens s) name = Some (Instance x) \<longrightarrow>
      uninstall_screen (ByName name) s = (Inl ScreenStackError, s)) \<and>
   (map_of (installed_screens s) name' = None \<longrightarrow>
      uninstall_screen (ByName name') s = (Inr None, s))"
  by (simp add: uninstall_screen_def)

text \<open>Screen 3 is installed as \<open>settings\<close> and is on the stack of mode \<open>help\<close>.\<close>

theorem uninstall_screen_guard_witness:
  "in_any_stack 3 example_controller \<and>
   map_of (installed_screens example_controller) ''settings'' = Some (Instance 3) \<and>
   map_of (installed_screens example_controller) ''nowhere'' = None \<and>
   uninstall_screen (ByInstance 3) example_controller = (Inl ScreenStackError, example_controller) \<and>
   uninstall_screen (ByName ''settings'') example_controller = (Inl ScreenStackError, example_controller) \<and>
   uninstall_screen (ByName ''nowhere'') example_controller = (Inr None, example_controller)"
  using uninstall_screen_guard [of 3 example_controller "''settings''" "''nowhere''"]
  by (simp add: example_controller_def in_any_stack_def)

subsection \<open>Pushing a screen and waiting for its result\<close>

lemma get_screen_fields:
  "screen_stacks (snd (get_screen a s)) = screen_stacks s"
  "current_mode (snd (get_screen a s)) = current_mode s"
  "result_callbacks (snd (get_screen a s)) = result_callbacks s"
  "future_result (snd (get_screen a s)) = future_result s"
  "future_count (snd (get_screen a s)) = future_count s"
  "is_running (snd (get_screen a s)) = is_running s"
  by (simp_all add: get_screen_def split: screen_arg.splits option.splits installed.splits)

lemma get_screen_mount_ok:
  assumes "fst (get_screen a s) = Inr x"
  shows "\<exists>m. fst (get_screen_mount a s) = Inr (x, m)"
    and "screen_stacks (snd (get_screen_mount a s)) = screen_stacks s"
    and "current_mode (snd (get_screen_mount a s)) = current_mode s"
    and "result_callbacks (snd (get_screen_mount a s)) = result_callbacks s"
    and "future_result (snd (get_screen_mount a s)) = future_result s"
proof -
  obtain r s1 where g: "get_screen a s = (r, s1)" by (cases "get_screen a s")
  have r: "r = Inr x" using assms g by simp
  have f: "screen_stacks s1 = screen_stacks s" "current_mode s1 = current_mode s"
    "result_callbacks s1 = result_callbacks s" "future_result s1 = future_result s"
    using get_screen_fields[of a s] g by simp_all
  show "\<exists>m. fst (get_screen_mount a s) = Inr (x, m)"
    by (simp add: get_screen_mount_def g r)
  show "screen_stacks (snd (get_screen_mount a s)) = screen_stacks s"
    by (simp add: get_screen_mount_def g r f)
  show "current_mode (snd (get_screen_mount a s)) = current_mode s"
    by (simp add: get_screen_mount_def g r f)
  show "result_callbacks (snd (get_screen_mount a s)) = result_callbacks s"
    by (simp add: get_screen_mount_def g r f)
  show "future_result (snd (get_screen_mount a s)) = future_result s"
    by (simp add: get_screen_mount_def g r f)
qed

lemma get_screen_installed_only:
  "installed_screens s' = installed_screens s \<Longrightarrow> fst (get_screen a s') = fst (get_screen a s)"
  by (simp add: get_screen_def split: screen_arg.splits option.splits installed.splits)

text \<open>The state reached by a push whose screen resolves, up to the last test.\<close>

lemma push_screen_result:
  assumes st: "screen_stack_ref s = Some stack" and g: "fst (get_screen a s) = Inr x"
  shows "\<exists>s7. (\<forall>w. push_screen a cb True p w s =
                  (if w then Inr (Future (future_count s)) else Inl NoActiveWorker, s7)) \<and>
              screen_stack_ref s7 = Some (stack @ [x]) \<and>
              future_result s7 = future_result s \<and>
              result_callbacks s7 x = result_callbacks s x @
                [ResultCallback (case p of Some q \<Rightarrow> q | None \<Rightarrow> AppPump) cb (Some (future_count s))]"
proof -
  define s0 where "s0 = s\<lparr>future_count := Suc (future_count s)\<rparr>"
  define s1 where "s1 = (if stack \<noteq> []
                       then emit (Refresh (last stack))
                              (emit (PostMessage (last stack) ScreenSuspend) s0)
                       else s0)"
  have r0: "screen_stack_ref s0 = Some stack" using st by (simp add: s0_def screen_stack_ref_def)
  have f1: "screen_stacks s1 = screen_stacks s" "current_mode s1 = current_mode s"
    "result_callbacks s1 = result_callbacks s" "future_result s1 = future_result s"
    "installed_screens s1 = installed_screens s"
    by (simp_all add: s1_def s0_def)
  have g1: "fst (get_screen a s1) = Inr x" using get_screen_installed_only[OF f1(5), of a] g by simp
  obtain r s2 where m: "get_screen_mount a s1 = (r, s2)" by (cases "get_screen_mount a s1")
  obtain aw where r: "r = Inr (x, aw)" using get_screen_mount_ok(1)[OF g1] m by auto
  have f2: "screen_stacks s2 = screen_stacks s" "current_mode s2 = current_mode s"
    "result_callbacks s2 = result_callbacks s" "future_result s2 = future_result s"
    using get_screen_mount_ok(2-5)[OF g1] m f1 by simp_all
  define pm where "pm = (case p of Some q \<Rightarrow> q | None \<Rightarrow> AppPump)"
  define s4 where "s4 = emit (LoadScreenCss x) (push_result_callback x pm cb (Some (future_count s)) s2)"
  have f4: "screen_stacks s4 = screen_stacks s" "current_mode s4 = current_mode s"
    "future_result s4 = future_result s"
    "result_callbacks s4 x = result_callbacks s x @ [ResultCallback pm cb (Some (future_count s))]"
    using f2 by (simp_all add: s4_def push_result_callback_def)
  have r4: "screen_stack_ref s4 = Some stack" using st f4 by (simp add: screen_stack_ref_def)
  define s7 where "s7 = emit (PostMessage x ScreenResume) (emit (StylesheetUpdate x)
      (s4\<lparr>screen_stacks := AList.update (current_mode s4) (stack @ [x]) (screen_stacks s4)\<rparr>))"
  have res: "push_screen a cb True p w s =
      (if w then Inr (Future (future_count s)) else Inl NoActiveWorker, s7)" for w
    unfolding push_screen_def s7_def s4_def pm_def
    using r0[unfolded s0_def] m[unfolded s1_def s0_def] r r4[unfolded s4_def pm_def]
    by (cases w) (simp_all add: Let_def split del: if_split)
  have "screen_stack_ref s7 = Some (stack @ [x])"
    by (simp add: s7_def screen_stack_ref_def update_conv')
  moreover have "future_result s7 = future_result s" using f4 by (simp add: s7_def)
  moreover have "result_callbacks s7 x =
      result_callbacks s x @ [ResultCallback pm cb (Some (future_count s))]"
    using f4 by (simp add: s7_def)
  ultimately show ?thesis using res unfolding pm_def by blast
qed

lemma dismiss_resolves:
  assumes "screen_stack_ref s = Some stack" "2 \<le> length stack"
    and "result_callbacks s x = cbs @ [ResultCallback q cb (Some f)]"
  shows "future_result (snd (dismiss x v s)) f = Some v"
proof -
  define s' where "s' = s\<lparr>future_result := (future_result s)(f \<mapsto> v)\<rparr>"
  define s1 where "s1 = (case cb of Some c \<Rightarrow> emit (CallNextCallback q c v) s' | None \<Rightarrow> s')"
  have d: "dismiss x v s = pop_screen s1"
    using assms(3) by (simp add: dismiss_def Let_def s1_def s'_def split: option.split)
  have r: "screen_stack_ref s1 = Some stack"
    using assms(1) by (simp add: s1_def s'_def screen_stack_ref_def split: option.split)
  have "future_result s1 f = Some v" by (simp add: s1_def s'_def split: option.split)
  then show ?thesis using pop_screen_pops(5)[OF r assms(2)] d by simp
qed

text \<open>
  Claim C5.  Take a push with \<open>wait_for_dismiss\<close> set, of a screen object or of the
  name of an installed screen, while the current mode has a stack.  Outside a worker the
  push raises \<open>NoActiveWorker\<close> (after the screen has been put on the stack).  Inside a
  worker it returns the future created by this call; the pushed screen is current, the
  future is as unresolved as before, and when the screen is dismissed with a value \<open>v\<close>
  the future holds \<open>v\<close>.
\<close>

theorem push_screen_wait_for_dismiss:
  assumes "screen_stack_ref s = Some stack" and "fst (get_screen a s) = Inr x"
  shows "fst (push_screen a cb True p False s) = Inl NoActiveWorker \<and>
         fst (push_screen a cb True p True s) = Inr (Future (future_count s)) \<and>
         current_screen (snd (push_screen a cb True p True s)) = Inr x \<and>
         future_result (snd (push_screen a cb True p True s)) = future_result s \<and>
         (stack \<noteq> [] \<longrightarrow>
            future_result (snd (dismiss x v (snd (push_screen a cb True p True s))))
              (future_count s) = Some v)"
proof -
  from push_screen_result[OF assms, of cb p] obtain s7 where
    res: "\<And>w. push_screen a cb True p w s =
                  (if w then Inr (Future (future_count s)) else Inl NoActiveWorker, s7)"
    and st: "screen_stack_ref s7 = Some (stack @ [x])"
    and fr: "future_result s7 = future_result s"
    and rc: "result_callbacks s7 x = result_callbacks s x @
                [ResultCallback (case p of Some q \<Rightarrow> q | None \<Rightarrow> AppPump) cb (Some (future_count s))]"
    by blast
  have 1: "fst (push_screen a cb True p False s) = Inl NoActiveWorker" by (simp add: res)
  have 2: "fst (push_screen a cb True p True s) = Inr (Future (future_count s))" by (simp add: res)
  have 3: "current_screen (snd (push_screen a cb True p True s)) = Inr x"
    using st by (simp add: res current_screen_def)
  have 4: "future_result (snd (push_screen a cb True p True s)) = future_result s"
    using fr by (simp add: res)
  have 5: "future_result (snd (dismiss x v (snd (push_screen a cb True p True s))))
              (future_count s) = Some v" if "stack \<noteq> []"
  proof -
    have "2 \<le> length (stack @ [x])" using that by (cases stack) simp_all
    from dismiss_resolves[OF st this rc] show ?thesis by (simp add: res)
  qed
  show ?thesis using 1 2 3 4 5 by blast
qed


text \<open>Pushing the installed name \<open>about\<close>, whose screen 4 is made on first use, and
  dismissing it with 7.\<close>

theorem push_screen_wait_for_dismiss_witness:
  "screen_stack_ref example_controller = Some [1, 2] \<and>
   fst (get_screen (ByName ''about'') example_controller) = Inr 4 \<and>
   fst (push_screen (ByName ''about'') None True None False example_controller) = Inl NoActiveWorker \<and>
   fst (push_screen (ByName ''about'') None True None True example_controller) = Inr (Future 0) \<and>
   future_result (snd (dismiss 4 7
       (snd (push_screen (ByName ''about'') None True None True example_controller)))) 0 = Some 7"
  using push_screen_wait_for_dismiss [of example_controller "[1, 2]" "ByName ''about''" 4 None None 7]
  by (simp add: example_controller_def screen_stack_ref_def get_screen_def)

section \<open>Properties of \<open>call_from_thread\<close>\<close>

text \<open>
  Claim C6.  \<open>call_from_thread\<close> raises \<open>RuntimeError\<close>, changing nothing, whenever the
  application has no event loop yet, and whenever it is called from the thread that runs
  the application.  Called from another thread of a running application, its outcome is
  the outcome of the callback run on the loop: the result of the callback, or the
  exception the callback raised.
\<close>

theorem call_from_thread_guards:
  "(loop a = None \<longrightarrow>
      call_from_thread callback ident a = (Inl (RuntimeError ''App is not running''), a)) \<and>
   (thread_id a = ident \<longrightarrow>
      (\<exists>msg. call_from_thread callback ident a = (Inl (RuntimeError msg), a))) \<and>
   (loop a \<noteq> None \<and> thread_id a \<noteq> ident \<longrightarrow>
      call_from_thread callback ident a = callback (set_active a))"
  by (simp add: call_from_thread_def)

text \<open>An application not yet started; a running one called from its own thread 7; and
  called from thread 8 with a callback that returns 42 and with one that fails.\<close>

theorem call_from_thread_guards_witness:
  "call_from_thread (\<lambda>a. (Inr 42, a)) 8 \<lparr>loop = None, thread_id = 0, active_app = False\<rparr> =
     (Inl (RuntimeError ''App is not running''), \<lparr>loop = None, thread_id = 0, active_app = False\<rparr>) \<and>
   (\<exists>msg. call_from_thread (\<lambda>a. (Inr 42, a)) 7 \<lparr>loop = Some 1, thread_id = 7, active_app = False\<rparr> =
     (Inl (RuntimeError msg), \<lparr>loop = Some 1, thread_id = 7, active_app = False\<rparr>)) \<and>
   call_from_thread (\<lambda>a. (Inr 42, a)) 8 \<lparr>loop = Some 1, thread_id = 7, active_app = False\<rparr> =
     (Inr 42, \<lparr>loop = Some 1, thread_id = 7, active_app = True\<rparr>) \<and>
   call_from_thread (\<lambda>a. (Inl (CallbackException ''boom''), a)) 8
       \<lparr>loop = Some 1, thread_id = 7, active_app = False\<rparr> =
     (Inl (CallbackException ''boom''), \<lparr>loop = Some 1, thread_id = 7, active_app = True\<rparr>)"
  using call_from_thread_guards
      [of "\<lparr>loop = None, thread_id = 0, active_app = False\<rparr>" "\<lambda>a. (Inr 42, a)" 8]
    call_from_thread_guards
      [of "\<lparr>loop = Some 1, thread_id = 7, active_app = False\<rparr>" "\<lambda>a. (Inr 42, a)" 7]
    call_from_thread_guards
      [of "\<lparr>loop = Some 1, thread_id = 7, active_app = False\<rparr>" "\<lambda>a. (Inr 42, a)" 8]
    call_from_thread_guards
      [of "\<lparr>loop = Some 1, thread_id = 7, active_app = False\<rparr>"
          "\<lambda>a. (Inl (CallbackException ''boom''), a)" 8]
  by (simp add: set_active_def)

section \<open>Properties of \<open>_dispatch_action\<close>\<close>

text \<open>
  Claim C8.  When the namespace has both a private method \<open>_action_<name>\<close> and a public
  method \<open>action_<name>\<close>, the private one is invoked with the parameters and the public
  one is not: the outcome of the dispatch is decided by what the private method does
  (\<open>True\<close> when it returns, \<open>False\<close> when it raises \<open>SkipAction\<close>, its exception
  otherwise), and it is the only method recorded as invoked.  Where there is no private
  method, the public one is invoked in the same way; where there is neither, the answer is
  \<open>False\<close> and nothing is invoked.  In particular, when the invoked method raises
  \<open>SkipAction\<close>, the dispatch returns \<open>False\<close> and raises nothing.
\<close>

theorem dispatch_action_private_first:
  "(ns (''_action_'' @ name) = Method private_method \<and> ns (''action_'' @ name) = Method public_method \<longrightarrow>
      dispatch_action ns name params =
        (handled (private_method params), [''_action_'' @ name])) \<and>
   ((\<forall>m. ns (''_action_'' @ name) \<noteq> Method m) \<and> ns (''action_'' @ name) = Method public_method \<longrightarrow>
      dispatch_action ns name params =
        (handled (public_method params), [''action_'' @ name])) \<and>
   ((\<forall>m. ns (''_action_'' @ name) \<noteq> Method m) \<and> (\<forall>m. ns (''action_'' @ name) \<noteq> Method m) \<longrightarrow>
      dispatch_action ns name params = (Inr False, [])) \<and>
   handled None = Inr True \<and>
   handled (Some SkipAction) = Inr False \<and>
   handled (Some (HandlerException x)) = Inl (HandlerException x) \<and>
   (ns (''_action_'' @ name) = Method private_method \<and> private_method params = Some SkipAction \<longrightarrow>
      fst (dispatch_action ns name params) = Inr False) \<and>
   ((\<forall>m. ns (''_action_'' @ name) \<noteq> Method m) \<and> ns (''action_'' @ name) = Method public_method \<and>
    public_method params = Some SkipAction \<longrightarrow>
      fst (dispatch_action ns name params) = Inr False)"
  by (auto simp: dispatch_action_def invoke_method_def handled_def
      split: attribute.splits option.splits action_exception.splits)

text \<open>For \<open>quit\<close> the private handler declines and the answer is \<open>False\<close>, although
  the public one would return; for \<open>close\<close> the private handler returns and the answer
  is \<open>True\<close>, although the public one would fail; for \<open>open\<close> the public handler, the
  only one, declines; for \<open>help\<close> there is no handler.\<close>

theorem dispatch_action_private_first_witness:
  "example_namespace (''_action_'' @ ''quit'') = Method (\<lambda>_. Some SkipAction) \<and>
   example_namespace (''action_'' @ ''quit'') = Method (\<lambda>_. None) \<and>
   dispatch_action example_namespace ''quit'' [] = (Inr False, [''_action_quit'']) \<and>
   example_namespace (''_action_'' @ ''close'') = Method (\<lambda>_. None) \<and>
   example_namespace (''action_'' @ ''close'') = Method (\<lambda>_. Some (HandlerException ''public'')) \<and>
   dispatch_action example_namespace ''close'' [] = (Inr True, [''_action_close'']) \<and>
   (\<forall>m. example_namespace (''_action_'' @ ''open'') \<noteq> Method m) \<and>
   example_namespace (''action_'' @ ''open'') = Method (\<lambda>_. Some SkipAction) \<and>
   dispatch_action example_namespace ''open'' [] = (Inr False, [''action_open'']) \<and>
   (\<forall>m. example_namespace (''action_'' @ ''help'') \<noteq> Method m) \<and>
   dispatch_action example_namespace ''help'' [] = (Inr False, [])"
  using dispatch_action_private_first
      [of example_namespace "''quit''" "\<lambda>_. Some SkipAction" "\<lambda>_. None" "[]"]
    dispatch_action_private_first
      [of example_namespace "''close''" "\<lambda>_. None" "\<lambda>_. Some (HandlerException ''public'')" "[]"]
    dispatch_action_private_first
      [of example_namespace "''open''" "\<lambda>_. None" "\<lambda>_. Some SkipAction" "[]"]
    dispatch_action_private_first
      [of example_namespace "''help''" "\<lambda>_. None" "\<lambda>_. None" "[]"]
  by (simp add: example_namespace_def handled_def)

section \<open>Properties of registration\<close>

subsection \<open>Registering a registered widget again\<close>

lemma register_loop_registered:
  "set ws \<subseteq> registry d \<Longrightarrow> register_loop p ws before_index after_index d = Some (None, d)"
proof (induction ws)
  case Nil
  show ?case by (subst register_loop.simps) simp
next
  case (Cons w ws)
  then show ?case by (subst register_loop.simps) simp
qed

text \<open>
  Claim C9.  For a widget that is in the registry, \<open>_register_child\<close> leaves the store as
  it is, whatever \<open>before\<close> and \<open>after\<close> are: the widget is not inserted into a child
  list again and no pump is started.  It returns normally when at most one position is
  given (with both it raises the error of claim C7, still changing nothing).  \<open>_register\<close>
  on widgets that are all in the registry ends, leaves the store as it is and returns the
  widgets (the empty list when the application is not running), whatever the positions.
\<close>

theorem register_idempotent:
  "(child \<in> registry d \<longrightarrow>
      snd (register_child p child before_index after_index d) = d \<and>
      (before_index = None \<or> after_index = None \<longrightarrow> fst (register_child p child before_index after_index d) = None) \<and>
      (before_index \<noteq> None \<and> after_index \<noteq> None \<longrightarrow>
         fst (register_child p child before_index after_index d) = Some AppError)) \<and>
   (set ws \<subseteq> registry d \<longrightarrow>
      register p ws before_index after_index d = Some (Inr (if app_running d then ws else []), d))"
proof (intro impI conjI)
  assume c: "child \<in> registry d"
  show "snd (register_child p child before_index after_index d) = d" using c by (simp add: register_child_def)
  show "fst (register_child p child before_index after_index d) = None" if "before_index = None \<or> after_index = None"
    using c that by (auto simp add: register_child_def)
  show "fst (register_child p child before_index after_index d) = Some AppError"
    if "before_index \<noteq> None \<and> after_index \<noteq> None"
    using that by (simp add: register_child_def)
next
  assume ws: "set ws \<subseteq> registry d"
  have 1: "register_loop p ws before_index after_index d = Some (None, d)"
    using ws by (rule register_loop_registered)
  have "set (rev ws) \<subseteq> registry d" using ws by simp
  then have 2: "register_loop p (rev ws) before_index after_index d = Some (None, d)"
    by (rule register_loop_registered)
  show "register p ws before_index after_index d = Some (Inr (if app_running d then ws else []), d)"
  proof (cases "before_index \<noteq> None \<or> after_index \<noteq> None")
    case True
    then show ?thesis using 2 unfolding register_def by (cases "ws = []") simp_all
  next
    case False
    then show ?thesis using 1 unfolding register_def by (cases "ws = []") simp_all
  qed
qed

text \<open>Widgets 1 and 2 of the example are registered children of the root; the child list
  of the root stays \<open>[1, 2]\<close>.\<close>

theorem register_idempotent_witness:
  "1 \<in> registry example_dom \<and> set [2, 1] \<subseteq> registry example_dom \<and>
   register_child 0 1 (Some 0) None example_dom = (None, example_dom) \<and>
   register_child 0 1 None (Some 5) example_dom = (None, example_dom) \<and>
   register 0 [2, 1] (Some 0) None example_dom = Some (Inr [2, 1], example_dom) \<and>
   nodes example_dom 0 = [1, 2]"
  using register_idempotent [of 1 example_dom 0 "Some 0" None "[2, 1]"]
    register_idempotent [of 1 example_dom 0 None "Some 5" "[2, 1]"]
  by (simp add: example_dom_def prod_eq_iff)

subsection \<open>Registering a new child\<close>

lemma list_insert_at:
  "0 \<le> i \<Longrightarrow> i \<le> int (length xs) \<Longrightarrow>
     list_insert i x xs = take (nat i) xs @ x # drop (nat i) xs \<and> list_insert i x xs ! nat i = x"
  by (simp add: list_insert_def Let_def nth_append)

text \<open>
  Claim C7.  \<open>_register_child\<close> with both \<open>before\<close> and \<open>after\<close> raises \<open>AppError\<close>
  and changes nothing.  With only \<open>before = i\<close>, for a child that is neither registered
  nor in the child list and a position \<open>i\<close> of the child list (\<open>0 \<le> i \<le> length\<close>), the
  child is at index \<open>i\<close> of the new child list, the old children before and behind it.
  Whenever a child that is not registered is registered with at most one position, the
  child gets the parent as its parent, is added to the registry, and its pump is started.
\<close>

theorem register_child_inserts:
  "(before_index \<noteq> None \<and> after_index \<noteq> None \<longrightarrow> register_child p child before_index after_index d = (Some AppError, d)) \<and>
   (child \<notin> registry d \<and> child \<notin> set (nodes d p) \<and> 0 \<le> i \<and> i \<le> int (length (nodes d p)) \<longrightarrow>
      fst (register_child p child (Some i) None d) = None \<and>
      nodes (snd (register_child p child (Some i) None d)) p =
        take (nat i) (nodes d p) @ child # drop (nat i) (nodes d p) \<and>
      nodes (snd (register_child p child (Some i) None d)) p ! nat i = child) \<and>
   (child \<notin> registry d \<and> (before_index = None \<or> after_index = None) \<longrightarrow>
      fst (register_child p child before_index after_index d) = None \<and>
      parent (snd (register_child p child before_index after_index d)) child = Some p \<and>
      registry (snd (register_child p child before_index after_index d)) = insert child (registry d) \<and>
      dom_events (snd (register_child p child before_index after_index d)) =
        dom_events d @ [PostRegister child, StartMessages child])"
proof (intro conjI impI)
  assume "before_index \<noteq> None \<and> after_index \<noteq> None"
  then show "register_child p child before_index after_index d = (Some AppError, d)"
    by (simp add: register_child_def)
next
  assume a: "child \<notin> registry d \<and> child \<notin> set (nodes d p) \<and> 0 \<le> i \<and> i \<le> int (length (nodes d p))"
  then have n: "nodes (snd (register_child p child (Some i) None d)) p = list_insert i child (nodes d p)"
    by (simp add: register_child_def Let_def node_list_insert_def)
  show "fst (register_child p child (Some i) None d) = None"
    using a by (simp add: register_child_def Let_def)
  show "nodes (snd (register_child p child (Some i) None d)) p =
        take (nat i) (nodes d p) @ child # drop (nat i) (nodes d p)"
    using n list_insert_at[of i "nodes d p" child] a by simp
  have "list_insert i child (nodes d p) ! nat i = child"
    using list_insert_at[of i "nodes d p" child] a by blast
  then show "nodes (snd (register_child p child (Some i) None d)) p ! nat i = child"
    by (simp only: n)
next
  assume a: "child \<notin> registry d \<and> (before_index = None \<or> after_index = None)"
  show "fst (register_child p child before_index after_index d) = None"
    using a by (auto simp add: register_child_def Let_def)
  show "parent (snd (register_child p child before_index after_index d)) child = Some p"
    using a by (auto simp add: register_child_def Let_def)
  show "registry (snd (register_child p child before_index after_index d)) = insert child (registry d)"
    using a by (auto simp add: register_child_def Let_def)
  show "dom_events (snd (register_child p child before_index after_index d)) =
        dom_events d @ [PostRegister child, StartMessages child]"
    using a by (auto simp add: register_child_def Let_def)
qed

text \<open>Widget 3 registered under the root, whose children are \<open>[1, 2]\<close>, with
  \<open>before = 0\<close>: the children are \<open>[3, 1, 2]\<close>.\<close>

theorem register_child_inserts_witness:
  "register_child 0 3 (Some 0) (Some 0) example_dom = (Some AppError, example_dom) \<and>
   3 \<notin> registry example_dom \<and> 3 \<notin> set (nodes example_dom 0) \<and>
   (0::int) \<le> int (length (nodes example_dom 0)) \<and>
   nodes (snd (register_child 0 3 (Some 0) None example_dom)) 0 = [3, 1, 2] \<and>
   parent (snd (register_child 0 3 (Some 0) None example_dom)) 3 = Some 0 \<and>
   registry (snd (register_child 0 3 (Some 0) None example_dom)) = {0, 1, 2, 3} \<and>
   dom_events (snd (register_child 0 3 (Some 0) None example_dom)) = [PostRegister 3, StartMessages 3]"
  using register_child_inserts [of "Some 0" "Some 0" 0 3 example_dom 0]
    register_child_inserts [of "Some 0" None 0 3 example_dom 0]
  by (auto simp add: example_dom_def)

section \<open>Properties of \<open>_detach_from_dom\<close>\<close>

lemma forget_child_fields [simp]:
  "parent (forget_child w d) = parent d"
  "focused (forget_child w d) = focused d"
  by (simp_all add: forget_child_def split: option.split)

lemma fold_forget_child_parent [simp]: "parent (fold forget_child ws d) = parent d"
  by (induction ws arbitrary: d) simp_all








lemma detach_fields [simp]:
  "nodes (detach w d) = nodes d"
  "parent (detach w d) x = (if x = w then None else parent d x)"
  by (simp_all add: detach_def)

lemma fold_detach_nodes [simp]: "nodes (fold detach ws d) = nodes d"
  by (induction ws arbitrary: d) simp_all







section \<open>Properties of \<open>_prune_node\<close>\<close>

subsection \<open>Children stop before their parent\<close>

lemma children_stopped_mono: "children_stopped R x \<Longrightarrow> R' \<subseteq> R \<Longrightarrow> children_stopped R' x"
  by (auto simp add: children_stopped_def)

lemma running_after_append:
  "running_after R (t @ u) = running_after (running_after R t) u"
  by (induction R t rule: running_after.induct) simp_all

lemma children_first_append:
  "children_first R (t @ u) \<longleftrightarrow> children_first R t \<and> children_first (running_after R t) u"
  by (induction R t rule: children_first.induct) simp_all

lemma running_after_unregistered [simp]: "running_after R (map Unregistered xs) = R"
  by (induction xs) simp_all

lemma running_after_close: "running_after R (map CloseMessages xs) = R - wid ` set xs"
  by (induction xs arbitrary: R) auto

lemma children_first_unregistered:
  "(\<forall>x \<in> set xs. children_stopped R x) \<Longrightarrow> children_first R (map Unregistered xs)"
  by (induction xs) simp_all

lemma children_first_close:
  "(\<forall>x \<in> set xs. children_stopped R x) \<Longrightarrow> children_first R (map CloseMessages xs)"
proof (induction xs arbitrary: R)
  case Nil show ?case by simp
next
  case (Cons x xs)
  have "\<forall>y \<in> set xs. children_stopped (R - {wid x}) y"
    using Cons.prems children_stopped_mono[of R _ "R - {wid x}"] by auto
  then show ?case using Cons by simp
qed

lemma unregister_pump_running [simp]: "pump_running (unregister v w d) = pump_running d"
  by (simp add: unregister_def blur_def detach_def forget_child_def Let_def split: option.split)

lemma fold_unregister_pump_running [simp]:
  "pump_running (fold (\<lambda>child. unregister v (wid child)) xs d) = pump_running d"
  by (induction xs arbitrary: d) simp_all

lemma fold_close_messages_pump_running:
  "pump_running (fold (\<lambda>child. close_messages (wid child)) xs d) = pump_running d - wid ` set xs"
  by (induction xs arbitrary: d) (auto simp add: close_messages_def)

text \<open>One round: if the children of every widget of the list are stopped, the round keeps
  the order, and afterwards no widget of the list runs.\<close>

lemma close_children_round:
  assumes "\<forall>c \<in> set children. children_stopped (pump_running d) c"
  shows "\<exists>u. close_children v children (t, d) = (t @ u, snd (close_children v children (t, d))) \<and>
             children_first (pump_running d) u \<and>
             pump_running (snd (close_children v children (t, d))) = running_after (pump_running d) u \<and>
             pump_running (snd (close_children v children (t, d))) \<subseteq> pump_running d \<and>
             (\<forall>c \<in> set children. wid c \<notin> pump_running (snd (close_children v children (t, d))))"
proof -
  define closing where "closing = filter (\<lambda>child. wid child \<in> pump_running d) children"
  show ?thesis
  proof (cases "closing = []")
    case True
    then have r: "close_children v children (t, d) = (t, d)"
      by (simp add: close_children_def closing_def)
    have "\<forall>c \<in> set children. wid c \<notin> pump_running d"
      using True unfolding closing_def by (simp add: filter_empty_conv)
    then show ?thesis using r by (intro exI[of _ "[]"]) simp
  next
    case False
    define u where "u = map CloseMessages closing @ map Unregistered children"
    define d' where "d' = fold (\<lambda>child. unregister v (wid child)) children
                     (fold (\<lambda>child. close_messages (wid child)) closing d)"
    have r: "close_children v children (t, d) = (t @ u, d')"
      using False by (simp add: close_children_def closing_def[symmetric] u_def d'_def)
    have pr: "pump_running d' = pump_running d - wid ` set closing"
      by (simp add: d'_def fold_close_messages_pump_running)
    have ra: "running_after (pump_running d) u = pump_running d - wid ` set closing"
      by (simp add: u_def running_after_append running_after_close)
    have c1: "children_first (pump_running d) (map CloseMessages closing)"
      using assms by (intro children_first_close) (simp add: closing_def)
    have "\<forall>x \<in> set children. children_stopped (pump_running d - wid ` set closing) x"
      using assms children_stopped_mono[of "pump_running d" _ "pump_running d - wid ` set closing"]
      by auto
    then have c2: "children_first (pump_running d - wid ` set closing) (map Unregistered children)"
      by (rule children_first_unregistered)
    have cf: "children_first (pump_running d) u"
      using c1 c2 by (simp add: u_def children_first_append running_after_close)
    have stopped: "\<forall>c \<in> set children. wid c \<notin> pump_running d'"
      unfolding pr closing_def by auto
    show ?thesis using r pr ra cf stopped by (intro exI[of _ u]) auto
  qed
qed


lemma virtual_leaves_unfold:
  "virtual_leaves w \<longleftrightarrow>
     (\<forall>x \<in> set (virtual_dom w). child_nodes x = [] \<and> virtual_dom x = []) \<and>
     (\<forall>n \<in> set (child_nodes w). virtual_leaves n)"
  by (cases w) simp

lemma walk_stack_Nil [simp]: "walk_stack [] = []"
  by (simp add: walk_stack.simps)

lemma walk_stack_snoc:
  "walk_stack (rest @ [w]) =
     (if child_nodes w @ virtual_dom w \<noteq> [] then [child_nodes w @ virtual_dom w] else [])
     @ walk_stack (rest @ child_nodes w)"
  by (subst walk_stack.simps) (simp add: Let_def)

text \<open>All rounds below a stack of widgets, run in reverse: the order is kept, and at the
  end the children of every widget of the stack are stopped.\<close>

lemma walk_rounds:
  assumes "\<forall>w \<in> set stack. virtual_leaves w"
  shows "\<exists>u d'. fold (close_children v) (rev (walk_stack stack)) (t, d) = (t @ u, d') \<and>
           children_first (pump_running d) u \<and>
           pump_running d' = running_after (pump_running d) u \<and>
           pump_running d' \<subseteq> pump_running d \<and>
           (\<forall>w \<in> set stack. children_stopped (pump_running d') w)"
  using assms
proof (induction stack arbitrary: t d rule: walk_stack.induct)
  case (1 stack)
  show ?case
  proof (cases "stack = []")
    case True
    then show ?thesis by (intro exI[of _ "[]"] exI[of _ d]) simp
  next
    case False
    then obtain rest w where st: "stack = rest @ [w]" by (cases stack rule: rev_cases) auto
    define children where "children = child_nodes w @ virtual_dom w"
    have lw: "virtual_leaves w" and lrest: "\<forall>x \<in> set rest. virtual_leaves x"
      using "1.prems" st by simp_all
    have leaves': "\<forall>x \<in> set (butlast stack @ child_nodes (last stack)). virtual_leaves x"
      using lw lrest st virtual_leaves_unfold[of w] by auto
    from "1.IH"[OF False refl refl leaves', of t d]
    obtain u1 d1 where
      f1: "fold (close_children v) (rev (walk_stack (rest @ child_nodes w))) (t, d) = (t @ u1, d1)"
      and cf1: "children_first (pump_running d) u1"
      and ra1: "pump_running d1 = running_after (pump_running d) u1"
      and sub1: "pump_running d1 \<subseteq> pump_running d"
      and st1: "\<forall>x \<in> set (rest @ child_nodes w). children_stopped (pump_running d1) x"
      using st by auto
    show ?thesis
    proof (cases "children = []")
      case True
      have "fold (close_children v) (rev (walk_stack stack)) (t, d) = (t @ u1, d1)"
        using True f1 by (simp add: st walk_stack_snoc children_def)
      moreover have "children_stopped (pump_running d1) w"
        using True by (simp add: children_stopped_def children_def)
      ultimately show ?thesis using cf1 ra1 sub1 st1 st by (intro exI[of _ u1] exI[of _ d1]) auto
    next
      case ne: False
      have pre: "\<forall>c \<in> set children. children_stopped (pump_running d1) c"
      proof
        fix c assume "c \<in> set children"
        then consider "c \<in> set (child_nodes w)" | "c \<in> set (virtual_dom w)"
          by (auto simp add: children_def)
        then show "children_stopped (pump_running d1) c"
        proof cases
          case 1 then show ?thesis using st1 by simp
        next
          case 2
          then have "child_nodes c = [] \<and> virtual_dom c = []"
            using lw virtual_leaves_unfold[of w] by blast
          then show ?thesis by (simp add: children_stopped_def)
        qed
      qed
      define d2 where "d2 = snd (close_children v children (t @ u1, d1))"
      from close_children_round[OF pre, of v "t @ u1"]
      obtain u2 where
        r2: "close_children v children (t @ u1, d1) = ((t @ u1) @ u2, d2)"
        and cf2: "children_first (pump_running d1) u2"
        and ra2: "pump_running d2 = running_after (pump_running d1) u2"
        and sub2: "pump_running d2 \<subseteq> pump_running d1"
        and st2: "\<forall>c \<in> set children. wid c \<notin> pump_running d2"
        unfolding d2_def by blast
      have f: "fold (close_children v) (rev (walk_stack stack)) (t, d) = (t @ (u1 @ u2), d2)"
        using ne f1 r2 by (simp add: st walk_stack_snoc children_def)
      have cf: "children_first (pump_running d) (u1 @ u2)"
        using cf1 cf2 ra1 by (simp add: children_first_append)
      have ra: "pump_running d2 = running_after (pump_running d) (u1 @ u2)"
        using ra1 ra2 by (simp add: running_after_append)
      have sub: "pump_running d2 \<subseteq> pump_running d" using sub1 sub2 by blast
      have "children_stopped (pump_running d2) w"
        using st2 by (simp add: children_stopped_def children_def)
      moreover have "\<forall>x \<in> set rest. children_stopped (pump_running d2) x"
        using st1 children_stopped_mono[OF _ sub2] by simp
      ultimately have "\<forall>x \<in> set stack. children_stopped (pump_running d2) x"
        by (simp add: st)
      then show ?thesis using f cf ra sub by (intro exI[of _ "u1 @ u2"] exI[of _ d2]) simp
    qed
  qed
qed


subsection \<open>The walk and the rounds\<close>

text \<open>The loop over the stack yields the child lists depth first, the last child first.\<close>

lemma walk_stack_child_lists: "walk_stack stack = concat (map child_lists (rev stack))"
proof (induction stack rule: walk_stack.induct)
  case (1 stack)
  show ?case
  proof (cases "stack = []")
    case True then show ?thesis by simp
  next
    case False
    then obtain rest w where st: "stack = rest @ [w]" by (cases stack rule: rev_cases) auto
    obtain i ns vs where w: "w = Widget i ns vs" by (cases w)
    have "walk_stack (butlast stack @ child_nodes (last stack)) =
          concat (map child_lists (rev (butlast stack @ child_nodes (last stack))))"
      by (rule "1.IH"[OF False refl refl])
    then have ih: "walk_stack (rest @ ns) = concat (map child_lists (rev ns)) @ concat (map child_lists (rev rest))"
      by (simp add: st w)
    show ?thesis by (simp add: st walk_stack_snoc ih w)
  qed
qed

lemma walk_children_child_lists: "walk_children root = child_lists root"
  by (simp add: walk_children_def walk_stack_child_lists)

lemma unregister_registry: "registry (unregister v w d) = registry d - {w}"
  by (simp add: unregister_def blur_def detach_def forget_child_def Let_def split: option.split)

lemma fold_unregister_registry:
  "registry (fold (\<lambda>child. unregister v (wid child)) xs d) = registry d - wid ` set xs"
  by (induction xs arbitrary: d) (auto simp add: unregister_registry)

lemma fold_close_messages_registry [simp]:
  "registry (fold (\<lambda>child. close_messages (wid child)) xs d) = registry d"
  by (induction xs arbitrary: d) (simp_all add: close_messages_def)

lemma unregistered_ids_append:
  "unregistered_ids (t @ u) = unregistered_ids t \<union> unregistered_ids u"
  by (induction t rule: unregistered_ids.induct) auto

lemma unregistered_ids_close [simp]: "unregistered_ids (map CloseMessages xs) = {}"
  by (induction xs) simp_all

lemma unregistered_ids_unregistered [simp]: "unregistered_ids (map Unregistered xs) = wid ` set xs"
  by (induction xs) auto

text \<open>One round of the code makes the events of its child list.\<close>

lemma close_children_events:
  "\<exists>d'. close_children v children (t, d) = (t @ round_events (pump_running d) children, d') \<and>
        pump_running d' = running_after (pump_running d) (round_events (pump_running d) children) \<and>
        registry d' = registry d - unregistered_ids (round_events (pump_running d) children)"
proof (cases "\<exists>c \<in> set children. wid c \<in> pump_running d")
  case True
  then have ne: "filter (\<lambda>child. wid child \<in> pump_running d) children \<noteq> []"
    by (simp add: filter_empty_conv)
  show ?thesis
    using True ne
    by (simp add: close_children_def round_events_def running_after_append running_after_close
        fold_close_messages_pump_running fold_unregister_registry unregistered_ids_append Let_def)
next
  case False
  then have "filter (\<lambda>child. wid child \<in> pump_running d) children = []"
    by (simp add: filter_empty_conv)
  then show ?thesis using False by (simp add: close_children_def round_events_def)
qed

lemma fold_close_children_events:
  "\<exists>d'. fold (close_children v) css (t, d) = (t @ rounds_events (pump_running d) css, d') \<and>
        pump_running d' = running_after (pump_running d) (rounds_events (pump_running d) css) \<and>
        registry d' = registry d - unregistered_ids (rounds_events (pump_running d) css)"
proof (induction css arbitrary: t d)
  case Nil
  show ?case by simp
next
  case (Cons cs css)
  from close_children_events[of v cs t d] obtain d1 where
    r: "close_children v cs (t, d) = (t @ round_events (pump_running d) cs, d1)"
    and p1: "pump_running d1 = running_after (pump_running d) (round_events (pump_running d) cs)"
    and g1: "registry d1 = registry d - unregistered_ids (round_events (pump_running d) cs)"
    by blast
  from Cons.IH[of "t @ round_events (pump_running d) cs" d1] obtain d2 where
    f: "fold (close_children v) css (t @ round_events (pump_running d) cs, d1) =
          ((t @ round_events (pump_running d) cs) @ rounds_events (pump_running d1) css, d2)"
    and p2: "pump_running d2 = running_after (pump_running d1) (rounds_events (pump_running d1) css)"
    and g2: "registry d2 = registry d1 - unregistered_ids (rounds_events (pump_running d1) css)"
    by blast
  show ?case
    using r f p1 p2 g1 g2
    by (intro exI[of _ d2]) (auto simp add: running_after_append unregistered_ids_append)
qed

text \<open>
  Claim C3, as the code has it.  Pruning a subtree whose root is registered closes the
  pumps bottom-up along the tree, one child list at a time and not one depth level at a
  time.  The child lists are those of the depth-first walk (last child first), taken in
  reverse; for each list the running pumps of the list are closed together and then
  unregistered (with every other widget of the list; a list without a running pump is
  passed over), the closed pumps no longer running for the lists that follow; the root is
  closed and unregistered last.  Afterwards the running pumps are those that ran before
  less the closed ones, and the registry is the one before less the unregistered widgets.
  Consequently, as long as the virtual widgets (into which the walk does not descend) have
  no children of their own, no widget is closed or unregistered while the pump of one of
  its children is running.
\<close>

theorem prune_node_rounds:
  assumes "wid root \<in> registry d"
  shows "walk_children root = child_lists root \<and>
         fst (prune_node v root d) =
           rounds_events (pump_running d) (rev (walk_children root))
             @ [CloseMessages root, Unregistered root] \<and>
         pump_running (snd (prune_node v root d)) =
           running_after (pump_running d) (fst (prune_node v root d)) \<and>
         registry (snd (prune_node v root d)) =
           registry d - unregistered_ids (fst (prune_node v root d)) \<and>
         (virtual_leaves root \<longrightarrow> children_first (pump_running d) (fst (prune_node v root d)))"
proof -
  define u where "u = rounds_events (pump_running d) (rev (walk_children root))"
  from fold_close_children_events[of v "rev (walk_children root)" "[]" d] obtain d1 where
    f: "fold (close_children v) (rev (walk_children root)) ([], d) = (u, d1)"
    and ra: "pump_running d1 = running_after (pump_running d) u"
    and rg: "registry d1 = registry d - unregistered_ids u"
    unfolding u_def by auto
  have res: "prune_node v root d =
      (u @ [CloseMessages root, Unregistered root],
       unregister v (wid root) (close_messages (wid root) d1))"
    using assms f by (simp add: prune_node_def Let_def)
  have 1: "fst (prune_node v root d) = u @ [CloseMessages root, Unregistered root]"
    by (simp add: res)
  have 2: "pump_running (snd (prune_node v root d)) =
           running_after (pump_running d) (fst (prune_node v root d))"
    using ra by (simp add: res running_after_append close_messages_def)
  have 3: "registry (snd (prune_node v root d)) =
           registry d - unregistered_ids (fst (prune_node v root d))"
    using rg by (auto simp add: res unregister_registry unregistered_ids_append close_messages_def)
  have 4: "children_first (pump_running d) (fst (prune_node v root d))" if leaves: "virtual_leaves root"
  proof -
    have "\<forall>w \<in> set [root]. virtual_leaves w" using leaves by simp
    from walk_rounds[OF this, of v "[]" d]
    obtain u' d' where
      f': "fold (close_children v) (rev (walk_children root)) ([], d) = (u', d')"
      and cf: "children_first (pump_running d) u'"
      and st: "children_stopped (pump_running d') root"
      unfolding walk_children_def by auto
    have eq: "u' = u" "d' = d1" using f f' by simp_all
    have st': "children_stopped (pump_running d1 - {wid root}) root"
      using st eq children_stopped_mono by blast
    show ?thesis
      using cf st st' ra eq by (simp add: 1 children_first_append)
  qed
  show ?thesis using walk_children_child_lists 1 2 3 4 unfolding u_def by blast
qed


subsection \<open>Two examples: levels, and a virtual widget with a child\<close>

text \<open>In the example tree, widget 13 is at depth 2 and widget 15 at depth 3.  The walk pops
  12 before 11, so the child list of 11 comes last and is closed first.\<close>

lemma example_walk:
  "walk_children example_widget =
     [ [Widget 11 [Widget 13 [] []] [], Widget 12 [Widget 14 [Widget 15 [] []] []] []],
      [Widget 14 [Widget 15 [] []] []],
      [Widget 15 [] []],
      [Widget 13 [] []]]"
  by (simp add: walk_children_child_lists example_widget_def)

lemma example_prune_trace:
  "fst (prune_node example_view example_widget example_prune_dom) =
     [CloseMessages (Widget 13 [] []), Unregistered (Widget 13 [] []),
      CloseMessages (Widget 15 [] []), Unregistered (Widget 15 [] []),
      CloseMessages (Widget 14 [Widget 15 [] []] []), Unregistered (Widget 14 [Widget 15 [] []] []),
      CloseMessages (Widget 11 [Widget 13 [] []] []),
      CloseMessages (Widget 12 [Widget 14 [Widget 15 [] []] []] []),
      Unregistered (Widget 11 [Widget 13 [] []] []),
      Unregistered (Widget 12 [Widget 14 [Widget 15 [] []] []] []),
      CloseMessages example_widget, Unregistered example_widget]"
  by (simp add: prune_node_def example_walk Let_def close_children_def close_messages_def
      unregister_def blur_def detach_def forget_child_def node_list_remove_def
      example_prune_dom_def example_view_def, simp add: example_widget_def)

text \<open>The walk does not descend into the virtual widget 21: it is closed and unregistered
  while the pump of its child 22 runs, and 22 is never closed.\<close>

lemma example_virtual_trace:
  "fst (prune_node example_view example_virtual_widget example_virtual_dom) =
     [CloseMessages (Widget 21 [Widget 22 [] []] []), Unregistered (Widget 21 [Widget 22 [] []] []),
      CloseMessages example_virtual_widget, Unregistered example_virtual_widget]"
  by (simp add: prune_node_def walk_children_child_lists Let_def close_children_def
      close_messages_def unregister_def blur_def detach_def forget_child_def node_list_remove_def
      example_virtual_dom_def example_view_def example_virtual_widget_def)

text \<open>The pump of 13 (depth 2) is closed before the pump of 15 (depth 3): the depths of the
  closed widgets are 2, 3, 2, 1, 1, 0.  And the virtual widget 21 is unregistered while its
  child is running.\<close>

theorem prune_node_level_order_counterexample:
  "\<not> deepest_level_first example_widget
       (fst (prune_node example_view example_widget example_prune_dom)) \<and>
   \<not> children_first (pump_running example_virtual_dom)
       (fst (prune_node example_view example_virtual_widget example_virtual_dom))"
proof
  show "\<not> deepest_level_first example_widget
       (fst (prune_node example_view example_widget example_prune_dom))"
    by (simp add: example_prune_trace deepest_level_first_def, simp add: example_widget_def)
  show "\<not> children_first (pump_running example_virtual_dom)
       (fst (prune_node example_view example_virtual_widget example_virtual_dom))"
    by (simp add: example_virtual_trace,
        simp add: children_stopped_def example_virtual_dom_def example_virtual_widget_def)
qed

text \<open>On the first example the events are those of the child lists in reverse, the
  children always stop before their parent, and only the application itself is left
  registered and running.\<close>

theorem prune_node_rounds_witness:
  "wid example_widget \<in> registry example_prune_dom \<and> virtual_leaves example_widget \<and>
   walk_children example_widget = child_lists example_widget \<and>
   fst (prune_node example_view example_widget example_prune_dom) =
     rounds_events (pump_running example_prune_dom) (rev (walk_children example_widget))
       @ [CloseMessages example_widget, Unregistered example_widget] \<and>
   children_first (pump_running example_prune_dom)
     (fst (prune_node example_view example_widget example_prune_dom)) \<and>
   registry (snd (prune_node example_view example_widget example_prune_dom)) = {0} \<and>
   pump_running (snd (prune_node example_view example_widget example_prune_dom)) = {0}"
proof -
  have h1: "wid example_widget \<in> registry example_prune_dom"
    by (simp add: example_widget_def example_prune_dom_def)
  have h2: "virtual_leaves example_widget"
    by (simp add: example_widget_def)
  have ra: "running_after (pump_running example_prune_dom)
              (fst (prune_node example_view example_widget example_prune_dom)) = {0}"
    by (simp add: example_prune_trace, simp add: example_widget_def example_prune_dom_def insert_Diff_if)
  have rg: "registry example_prune_dom -
              unregistered_ids (fst (prune_node example_view example_widget example_prune_dom)) = {0}"
    by (simp add: example_prune_trace, auto simp add: example_widget_def example_prune_dom_def)
  note T = prune_node_rounds [OF h1, of example_view]
  from T have c1: "walk_children example_widget = child_lists example_widget" by blast
  from T have c2: "fst (prune_node example_view example_widget example_prune_dom) =
     rounds_events (pump_running example_prune_dom) (rev (walk_children example_widget))
       @ [CloseMessages example_widget, Unregistered example_widget]" by blast
  from T h2 have c3: "children_first (pump_running example_prune_dom)
     (fst (prune_node example_view example_widget example_prune_dom))" by blast
  from T have "registry (snd (prune_node example_view example_widget example_prune_dom)) =
      registry example_prune_dom -
        unregistered_ids (fst (prune_node example_view example_widget example_prune_dom))" by blast
  then have c4: "registry (snd (prune_node example_view example_widget example_prune_dom)) = {0}"
    by (simp only: rg)
  from T have "pump_running (snd (prune_node example_view example_widget example_prune_dom)) =
      running_after (pump_running example_prune_dom)
        (fst (prune_node example_view example_widget example_prune_dom))" by blast
  then have c5: "pump_running (snd (prune_node example_view example_widget example_prune_dom)) = {0}"
    by (simp only: ra)
  show ?thesis using h1 h2 c1 c2 c3 c4 c5 by blast
qed

end
